theory Spec2Isabelle
  imports Complex_Main "HOL-Library.Char_ord" "HOL-Library.List_Lexorder"
begin

section \<open>Data model\<close>

text \<open>
  The pipeline of \<^verbatim>\<open>app.py\<close> works on pandas data frames.  A frame is modelled
  column-wise, as pandas stores it: a list of row labels (the index, which
  \<^verbatim>\<open>drop_duplicates\<close> does not renumber) and an ordered list of named columns.

  A column is either numeric (dtype \<^verbatim>\<open>int64\<close> or \<^verbatim>\<open>float64\<close>: the two
  dtypes that line 46 of \<^verbatim>\<open>clean_data\<close> tests for, and that
  \<^verbatim>\<open>select_dtypes(include=[np.number])\<close> selects) or categorical (dtype
  \<^verbatim>\<open>object\<close>, holding strings).  A missing entry (NaN or None) is \<open>None\<close>.
  Floating-point numbers are idealised as reals.  Strings are lists of characters, each
  character standing for one code point below 256.
\<close>

datatype cells = Numeric "real option list" | Categorical "string option list"

type_synonym column = "string \<times> cells"

record dataframe =
  index :: "nat list"
  columns :: "column list"

text \<open>
  The Python exceptions that the modelled code can raise, the two error kinds that only
  the specification names (no code path constructs them), and a marker for the one place
  where the model stops short of pandas (see \<open>detect_loop\<close> below).
\<close>

datatype error =
    AttributeError | ValueError | IndexError | KeyError | ZeroDivisionError
  | SchemaError | UndefinedStatisticError
  | RepeatedLabel

definition column_names :: "dataframe \<Rightarrow> string list" where
  "column_names df = map fst (columns df)"

fun cells_length :: "cells \<Rightarrow> nat" where
  "cells_length (Numeric xs) = length xs"
| "cells_length (Categorical xs) = length xs"

text \<open>The invariant of a pandas frame: every column is as long as the index.\<close>

definition wf_frame :: "dataframe \<Rightarrow> bool" where
  "wf_frame df = list_all (\<lambda>c. cells_length (snd c) = length (index df)) (columns df)"

fun dropna :: "'a option list \<Rightarrow> 'a list" where
  "dropna [] = []"
| "dropna (None # xs) = dropna xs"
| "dropna (Some x # xs) = x # dropna xs"

fun fillna :: "'a option list \<Rightarrow> 'a \<Rightarrow> 'a option list" where
  "fillna [] v = []"
| "fillna (None # xs) v = Some v # fillna xs v"
| "fillna (Some x # xs) v = Some x # fillna xs v"

fun missing_count :: "cells \<Rightarrow> nat" where
  "missing_count (Numeric xs) = length (filter (\<lambda>x. x = None) xs)"
| "missing_count (Categorical xs) = length (filter (\<lambda>x. x = None) xs)"

section \<open>Column-name normalisation (\<^verbatim>\<open>clean_data\<close>, line 39)\<close>

text \<open>
  \<^verbatim>\<open>df_clean.columns.str.strip().str.replace(' ', '_').str.replace('[^a-zA-Z0-9_]', '')\<close>

  \<^verbatim>\<open>str.strip()\<close> removes leading and trailing characters for which Python's
  \<^verbatim>\<open>str.isspace\<close> holds; below code point 256 these are 9 to 13, 28 to 32, 133
  and 160.  The first \<^verbatim>\<open>replace\<close> turns every space character into an
  underscore, whether its one-character pattern is taken literally or as a regular
  expression.
\<close>

definition isspace :: "char \<Rightarrow> bool" where
  "isspace c = (let n = (of_char c :: nat) in
     (9 \<le> n \<and> n \<le> 13) \<or> (28 \<le> n \<and> n \<le> 32) \<or> n = 133 \<or> n = 160)"

definition str_strip :: "string \<Rightarrow> string" where
  "str_strip s = rev (dropWhile isspace (rev (dropWhile isspace s)))"

definition str_replace_char :: "char \<Rightarrow> char \<Rightarrow> string \<Rightarrow> string" where
  "str_replace_char old new s = map (\<lambda>c. if c = old then new else c) s"

text \<open>
  The second \<^verbatim>\<open>replace\<close> is called without the argument \<^verbatim>\<open>regex\<close>, and the
  source pins no version of pandas.  What the call does depends on the default of that
  argument: before pandas 2.0 it is \<^verbatim>\<open>True\<close>, the pattern is a regular expression
  (the complement of a character class) and every character outside the class is
  removed; from pandas 2.0 it is \<^verbatim>\<open>False\<close>, the pattern is a plain string, and only
  occurrences of the thirteen characters of the pattern itself are removed.  The model
  takes the default as the argument \<open>regex\<close> of \<open>normalize_name\<close>, and
  of the functions that call it, and follows both readings.

  \<open>str_replace\<close> is Python's \<^verbatim>\<open>str.replace\<close> for plain strings: occurrences
  are found from the left and do not overlap; an empty pattern matches before every
  character and at the end.
\<close>

definition in_class :: "char \<Rightarrow> bool" where
  "in_class c = ((CHR ''a'' \<le> c \<and> c \<le> CHR ''z'') \<or> (CHR ''A'' \<le> c \<and> c \<le> CHR ''Z'')
     \<or> (CHR ''0'' \<le> c \<and> c \<le> CHR ''9'') \<or> c = CHR ''_'')"

definition re_remove_outside_class :: "string \<Rightarrow> string" where
  "re_remove_outside_class s = filter in_class s"

function str_replace :: "string \<Rightarrow> string \<Rightarrow> string \<Rightarrow> string" where
  "str_replace old new [] = (if old = [] then new else [])"
| "str_replace old new (c # cs) =
     (if old = [] then new @ c # str_replace old new cs
      else if take (length old) (c # cs) = old
           then new @ str_replace old new (drop (length old) (c # cs))
           else c # str_replace old new cs)"
  by pat_completeness auto
termination
  by (relation "measure (\<lambda>(old, new, s). length s)") auto

definition normalize_name :: "bool \<Rightarrow> string \<Rightarrow> string" where
  "normalize_name regex s =
     (let t = str_replace_char (CHR '' '') (CHR ''_'') (str_strip s)
      in if regex then re_remove_outside_class t
         else str_replace ''[^a-zA-Z0-9_]'' [] t)"

definition rename_columns :: "bool \<Rightarrow> dataframe \<Rightarrow> dataframe" where
  "rename_columns regex df =
     df\<lparr>columns := map (\<lambda>(n, v). (normalize_name regex n, v)) (columns df)\<rparr>"


section \<open>Duplicate removal (\<^verbatim>\<open>clean_data\<close>, line 42)\<close>

text \<open>
  \<^verbatim>\<open>df_clean.drop_duplicates()\<close>: pandas returns an empty frame (no rows or no
  columns) as it is; otherwise \<^verbatim>\<open>duplicated()\<close> marks every row that equals an
  earlier row in every column (two missing entries count as equal), and the unmarked
  rows are kept, in order, with their labels.
\<close>

datatype cell = NumCell "real option" | StrCell "string option"

fun cell_at :: "cells \<Rightarrow> nat \<Rightarrow> cell" where
  "cell_at (Numeric xs) i = NumCell (xs ! i)"
| "cell_at (Categorical xs) i = StrCell (xs ! i)"

definition row_at :: "dataframe \<Rightarrow> nat \<Rightarrow> cell list" where
  "row_at df i = map (\<lambda>c. cell_at (snd c) i) (columns df)"

definition duplicated :: "dataframe \<Rightarrow> bool list" where
  "duplicated df =
     map (\<lambda>i. row_at df i \<in> set (map (row_at df) [0..<i])) [0..<length (index df)]"

definition select :: "'a list \<Rightarrow> bool list \<Rightarrow> 'a list" where
  "select xs flags = map fst (filter snd (zip xs flags))"

fun select_cells :: "cells \<Rightarrow> bool list \<Rightarrow> cells" where
  "select_cells (Numeric xs) flags = Numeric (select xs flags)"
| "select_cells (Categorical xs) flags = Categorical (select xs flags)"

definition empty_frame :: "dataframe \<Rightarrow> bool" where
  "empty_frame df = (index df = [] \<or> columns df = [])"

definition drop_duplicates :: "dataframe \<Rightarrow> dataframe" where
  "drop_duplicates df =
     (if empty_frame df then df
      else let keep = map Not (duplicated df)
           in df\<lparr>index := select (index df) keep,
                 columns := map (\<lambda>(n, v). (n, select_cells v keep)) (columns df)\<rparr>)"

section \<open>Imputation (\<^verbatim>\<open>clean_data\<close>, lines 44 to 55)\<close>

text \<open>
  \<^verbatim>\<open>Series.median()\<close> skips missing entries and is NaN (\<open>None\<close>) when nothing is
  left.  \<^verbatim>\<open>Series.mode()\<close> skips missing entries and returns the most frequent
  values in ascending order; line 53 takes the first of them.
\<close>

definition median :: "real list \<Rightarrow> real option" where
  "median xs =
     (if xs = [] then None
      else let s = sort xs; n = length s
           in if odd n then Some (s ! (n div 2))
              else Some ((s ! (n div 2 - 1) + s ! (n div 2)) / 2))"

definition mode :: "string list \<Rightarrow> string list" where
  "mode xs =
     (let top = fold max (map (count_list xs) xs) 0
      in sort (remdups (filter (\<lambda>x. count_list xs x = top) xs)))"

text \<open>
  The median of a list stated by counting, for comparison with \<^const>\<open>median\<close>.
  \<open>order_statistic ys k v\<close>: the entry \<open>v\<close> of \<open>ys\<close> stands at position
  \<open>k\<close> (from 0) when the entries are put in ascending order, that is, at most
  \<open>k\<close> entries are smaller and more than \<open>k\<close> entries are not larger.  The
  median is the mean of the two middle entries, which are the same entry when the
  length is odd.
\<close>

definition order_statistic :: "real list \<Rightarrow> nat \<Rightarrow> real \<Rightarrow> bool" where
  "order_statistic ys k v =
     (v \<in> set ys \<and> length (filter (\<lambda>y. y < v) ys) \<le> k \<and> k < length (filter (\<lambda>y. y \<le> v) ys))"

definition spec_median :: "real list \<Rightarrow> real \<Rightarrow> bool" where
  "spec_median ys m =
     (\<exists>a \<in> set ys. \<exists>b \<in> set ys.
        order_statistic ys ((length ys - 1) div 2) a
        \<and> order_statistic ys (length ys div 2) b
        \<and> m = (a + b) / 2)"

text \<open>
  One pass of the loop body on the series \<^verbatim>\<open>df_clean[col]\<close>.  Filling with a NaN
  median leaves the series as it is.
\<close>

fun impute_column :: "cells \<Rightarrow> cells" where
  "impute_column (Numeric xs) =
     (case median (dropna xs) of
        None \<Rightarrow> Numeric xs
      | Some m \<Rightarrow> Numeric (fillna xs m))"
| "impute_column (Categorical xs) =
     (case mode (dropna xs) of
        [] \<Rightarrow> Categorical (fillna xs ''Unknown'')
      | m # _ \<Rightarrow> Categorical (fillna xs m))"

text \<open>
  \<^verbatim>\<open>df[col]\<close> collects the columns labelled \<^verbatim>\<open>col\<close>: one of them is a series,
  several are a frame.  \<^verbatim>\<open>df[col] = s\<close> overwrites the column of that label, or
  appends a new one.
\<close>

definition getitem :: "dataframe \<Rightarrow> string \<Rightarrow> cells list" where
  "getitem df col = map snd (filter (\<lambda>c. fst c = col) (columns df))"

definition setitem :: "dataframe \<Rightarrow> string \<Rightarrow> cells \<Rightarrow> dataframe" where
  "setitem df col v =
     (if col \<in> set (column_names df)
      then df\<lparr>columns := map (\<lambda>(n, old). if n = col then (n, v) else (n, old)) (columns df)\<rparr>
      else df\<lparr>columns := columns df @ [(col, v)]\<rparr>)"

text \<open>
  The loop \<^verbatim>\<open>for col in df_clean.columns\<close>, mutating \<^verbatim>\<open>df_clean\<close> as it goes.
  When a label occurs twice, \<^verbatim>\<open>df_clean[col]\<close> is a frame and has no attribute
  \<^verbatim>\<open>dtype\<close>: line 46 raises AttributeError.  (Attribute access on a frame falls
  back to its column labels, so for the label \<^verbatim>\<open>dtype\<close> itself the access yields
  the frame again, and the membership test of line 46 raises ValueError on its truth
  value.)
\<close>

fun impute_loop :: "string list \<Rightarrow> dataframe \<Rightarrow> error + dataframe" where
  "impute_loop [] df = Inr df"
| "impute_loop (col # cols) df =
     (case getitem df col of
        [] \<Rightarrow> Inl KeyError
      | [v] \<Rightarrow> impute_loop cols (setitem df col (impute_column v))
      | _ \<Rightarrow> Inl (if col = ''dtype'' then ValueError else AttributeError))"

text \<open>The first label, in column order, that occurs more than once.\<close>

definition first_repeated :: "string list \<Rightarrow> string option" where
  "first_repeated ns = find (\<lambda>n. 1 < count_list ns n) ns"

definition impute_missing :: "dataframe \<Rightarrow> error + dataframe" where
  "impute_missing df = impute_loop (column_names df) df"

section \<open>\<^verbatim>\<open>clean_data\<close>\<close>

text \<open>
  The argument \<open>regex\<close> is the default of the installed pandas described above; the
  frame is the argument of the source function.
\<close>

definition clean_data :: "bool \<Rightarrow> dataframe \<Rightarrow> error + dataframe" where
  "clean_data regex df =
     (let df_clean = rename_columns regex df;
          df_clean = drop_duplicates df_clean
      in impute_missing df_clean)"

text \<open>
  The cleaning stage in the order of the specification's system overview, for comparison
  with \<^const>\<open>clean_data\<close>: schema normaliser, then imputation engine, then
  deduplicator.
\<close>

definition spec_clean_data :: "bool \<Rightarrow> dataframe \<Rightarrow> error + dataframe" where
  "spec_clean_data regex df =
     (case impute_missing (rename_columns regex df) of
        Inl e \<Rightarrow> Inl e
      | Inr d \<Rightarrow> Inr (drop_duplicates d))"

section \<open>\<^verbatim>\<open>detect_outliers\<close>\<close>

text \<open>
  The result is a dictionary from column label to the series of flagged entries, each
  entry with its row label.  A Python dictionary keeps its keys in insertion order, and
  assigning to a key that is present overwrites its value in place.
\<close>

type_synonym series = "(nat \<times> real option) list"

fun dict_set :: "('k \<times> 'v) list \<Rightarrow> 'k \<Rightarrow> 'v \<Rightarrow> ('k \<times> 'v) list" where
  "dict_set [] k v = [(k, v)]"
| "dict_set ((k', v') # d) k v = (if k' = k then (k, v) # d else (k', v') # dict_set d k v)"

text \<open>
  \<^verbatim>\<open>Series.quantile(q)\<close> with the default linear interpolation, on the non-missing
  values: position \<open>q * (n - 1)\<close> in the sorted values, interpolated between its two
  neighbours; NaN when there is no value.
\<close>

definition quantile :: "real list \<Rightarrow> real \<Rightarrow> real option" where
  "quantile xs q =
     (if xs = [] then None
      else let s = sort xs;
               h = q * real (length s - 1);
               lo = nat \<lfloor>h\<rfloor>;
               hi = min (lo + 1) (length s - 1)
           in Some (s ! lo + (h - real lo) * (s ! hi - s ! lo)))"

text \<open>
  Lines 66 to 71.  A comparison with NaN is false, so a missing entry is never flagged,
  and nothing is flagged when the quartiles are NaN.
\<close>

definition iqr_outliers :: "nat list \<Rightarrow> real option list \<Rightarrow> series" where
  "iqr_outliers idx xs =
     (case (quantile (dropna xs) 0.25, quantile (dropna xs) 0.75) of
        (Some Q1, Some Q3) \<Rightarrow>
          (let IQR = Q3 - Q1;
               lower_bound = Q1 - 1.5 * IQR;
               upper_bound = Q3 + 1.5 * IQR
           in filter (\<lambda>(i, x). case x of None \<Rightarrow> False
                                 | Some v \<Rightarrow> v < lower_bound \<or> v > upper_bound)
                (zip idx xs))
      | _ \<Rightarrow> [])"

text \<open>
  Lines 73 and 74.  \<^verbatim>\<open>stats.zscore\<close> standardises with the mean and the population
  standard deviation (\<^verbatim>\<open>ddof=0\<close>) and returns an array; for a constant input the
  scores are NaN.  The array of the scores of the non-missing values is then used as a
  positional boolean mask on the whole column, which raises IndexError when the lengths
  differ, that is, when the column has a missing entry.
\<close>

definition mean :: "real list \<Rightarrow> real" where
  "mean xs = sum_list xs / real (length xs)"

definition pstd :: "real list \<Rightarrow> real" where
  "pstd xs = sqrt (sum_list (map (\<lambda>x. (x - mean xs)\<^sup>2) xs) / real (length xs))"

definition zscore :: "real list \<Rightarrow> real option list" where
  "zscore xs =
     (let mn = mean xs; sd = pstd xs
      in map (\<lambda>x. if sd = 0 then None else Some ((x - mn) / sd)) xs)"

definition zscore_outliers :: "nat list \<Rightarrow> real option list \<Rightarrow> error + series" where
  "zscore_outliers idx xs =
     (let z_scores = map (map_option abs) (zscore (dropna xs));
          flags = map (\<lambda>z. case z of None \<Rightarrow> False | Some a \<Rightarrow> a > 3) z_scores
      in if length flags \<noteq> length xs then Inl IndexError
         else Inr (select (zip idx xs) flags))"

definition is_numeric :: "column \<Rightarrow> bool" where
  "is_numeric c = (case snd c of Numeric _ \<Rightarrow> True | Categorical _ \<Rightarrow> False)"

definition numerical_cols :: "dataframe \<Rightarrow> string list" where
  "numerical_cols df = map fst (filter is_numeric (columns df))"

text \<open>
  The loop of lines 64 to 74.  The method is tested first; a method that is neither
  \<^verbatim>\<open>'iqr'\<close> nor \<^verbatim>\<open>'zscore'\<close> matches no branch, and nothing is stored.

  The model follows the two branches on frames whose numeric labels are unique, which is
  what \<^const>\<open>clean_data\<close> returns.  Where a label occurs twice, \<^verbatim>\<open>df[col]\<close> is a
  frame and pandas goes on with frame arithmetic; the model does not follow it there and
  stops with the marker \<open>Inl RepeatedLabel\<close>.  No statement below is about that case.
\<close>

fun detect_loop ::
  "dataframe \<Rightarrow> string \<Rightarrow> string list \<Rightarrow> (string \<times> series) list \<Rightarrow> error + (string \<times> series) list"
where
  "detect_loop df method [] outliers = Inr outliers"
| "detect_loop df method (col # cols) outliers =
     (if method = ''iqr'' then
        (case getitem df col of
           [Numeric xs] \<Rightarrow>
             detect_loop df method cols (dict_set outliers col (iqr_outliers (index df) xs))
         | _ \<Rightarrow> Inl RepeatedLabel)
      else if method = ''zscore'' then
        (case getitem df col of
           [Numeric xs] \<Rightarrow>
             (case zscore_outliers (index df) xs of
                Inl e \<Rightarrow> Inl e
              | Inr s \<Rightarrow> detect_loop df method cols (dict_set outliers col s))
         | _ \<Rightarrow> Inl RepeatedLabel)
      else detect_loop df method cols outliers)"

definition detect_outliers :: "dataframe \<Rightarrow> string \<Rightarrow> error + (string \<times> series) list" where
  "detect_outliers df method = detect_loop df method (numerical_cols df) []"

section \<open>\<^verbatim>\<open>generate_eda_report\<close>: the outlier summary\<close>

text \<open>
  Of the report, the shape, the column list and the outlier summary (lines 98 to 103)
  are modelled; the dtype map, the missing-value counts, the descriptive statistics and
  the correlation matrix are pandas aggregates left out.  \<^verbatim>\<open>len(df)\<close> is the number
  of rows; Python's \<^verbatim>\<open>/\<close> on integers raises ZeroDivisionError for a zero divisor.
\<close>

record summary_entry =
  count :: nat
  percentage :: real

record report =
  shape :: "nat \<times> nat"
  report_columns :: "string list"
  outlier_summary :: "(string \<times> summary_entry) list"

fun summary_loop ::
  "dataframe \<Rightarrow> (string \<times> series) list \<Rightarrow> (string \<times> summary_entry) list
     \<Rightarrow> error + (string \<times> summary_entry) list"
where
  "summary_loop df [] acc = Inr acc"
| "summary_loop df ((col, outlier_data) # rest) acc =
     (if length (index df) = 0 then Inl ZeroDivisionError
      else summary_loop df rest
             (dict_set acc col
                \<lparr>count = length outlier_data,
                 percentage = (real (length outlier_data) / real (length (index df))) * 100\<rparr>))"

definition generate_eda_report :: "dataframe \<Rightarrow> (string \<times> series) list \<Rightarrow> error + report" where
  "generate_eda_report df outliers =
     (case summary_loop df outliers [] of
        Inl e \<Rightarrow> Inl e
      | Inr s \<Rightarrow>
          Inr \<lparr>shape = (length (index df), length (columns df)),
               report_columns = column_names df,
               outlier_summary = s\<rparr>)"

section \<open>The configuration of \<^verbatim>\<open>config.py\<close> and the detector of the specification\<close>

text \<open>
  \<^verbatim>\<open>Config\<close>, lines 27 to 29, with the values the class takes when the environment
  sets none.  \<^verbatim>\<open>app.py\<close> does not import \<^verbatim>\<open>config.py\<close>.
\<close>

record config =
  OUTLIER_DETECTION_METHOD :: string
  Z_SCORE_THRESHOLD :: real
  IQR_MULTIPLIER :: real

definition default_config :: config where
  "default_config =
     \<lparr>OUTLIER_DETECTION_METHOD = ''iqr'', Z_SCORE_THRESHOLD = 3.0, IQR_MULTIPLIER = 1.5\<rparr>"

text \<open>
  The outlier detector as the specification words it, with the multiplier \<open>k\<close> and
  the threshold \<open>t\<close> supplied by the caller: quartiles by linear interpolation,
  bounds \<open>Q1 - k * IQR\<close> and \<open>Q3 + k * IQR\<close>, values strictly outside flagged;
  mean and population standard deviation of the non-missing values, values whose
  absolute standardised score exceeds \<open>t\<close> flagged; a column with fewer than two
  non-missing values, or with no spread to standardise by, yields nothing.
\<close>

definition spec_iqr_outliers :: "real \<Rightarrow> nat list \<Rightarrow> real option list \<Rightarrow> series" where
  "spec_iqr_outliers k idx xs =
     (if length (dropna xs) < 2 then []
      else case (quantile (dropna xs) (1 / 4), quantile (dropna xs) (3 / 4)) of
             (Some Q1, Some Q3) \<Rightarrow>
               filter (\<lambda>(i, x). case x of None \<Rightarrow> False
                                | Some v \<Rightarrow> v < Q1 - k * (Q3 - Q1) \<or> Q3 + k * (Q3 - Q1) < v)
                 (zip idx xs)
           | _ \<Rightarrow> [])"

definition spec_zscore_outliers :: "real \<Rightarrow> nat list \<Rightarrow> real option list \<Rightarrow> series" where
  "spec_zscore_outliers t idx xs =
     (if length (dropna xs) < 2 \<or> pstd (dropna xs) = 0 then []
      else filter (\<lambda>(i, x). case x of None \<Rightarrow> False
                             | Some v \<Rightarrow> t < \<bar>(v - mean (dropna xs)) / pstd (dropna xs)\<bar>)
             (zip idx xs))"

definition spec_detect_outliers :: "config \<Rightarrow> dataframe \<Rightarrow> (string \<times> series) list" where
  "spec_detect_outliers cfg df =
     map (\<lambda>(n, v). (n, case v of
                          Numeric xs \<Rightarrow>
                            if OUTLIER_DETECTION_METHOD cfg = ''iqr''
                            then spec_iqr_outliers (IQR_MULTIPLIER cfg) (index df) xs
                            else spec_zscore_outliers (Z_SCORE_THRESHOLD cfg) (index df) xs
                        | Categorical _ \<Rightarrow> []))
       (filter is_numeric (columns df))"

section \<open>Concrete inputs\<close>

text \<open>The frame built in \<^verbatim>\<open>test_app.py\<close>, lines 42 to 47.\<close>

definition test_outlier_frame :: dataframe where
  "test_outlier_frame =
     \<lparr>index = [0, 1, 2, 3, 4, 5, 6, 7, 8, 9],
      columns = [(''Normal_Values'', Numeric (map Some [1, 2, 3, 4, 5, 6, 7, 8, 9, 10])),
                 (''With_Outliers'', Numeric (map Some [1, 2, 3, 4, 5, 6, 7, 8, 9, 100]))]\<rparr>"

text \<open>A frame with a column and no rows, and a frame of three rows.\<close>

definition no_rows_frame :: dataframe where
  "no_rows_frame = \<lparr>index = [], columns = [(''A'', Numeric [])]\<rparr>"

definition three_rows_frame :: dataframe where
  "three_rows_frame = \<lparr>index = [0, 1, 2], columns = [(''A'', Numeric [Some 1, Some 2, Some 50])]\<rparr>"

text \<open>A column whose last entry lies between the bounds for the multipliers 1.5 and 3.\<close>

definition mild_outlier_frame :: dataframe where
  "mild_outlier_frame =
     \<lparr>index = [0, 1, 2, 3, 4, 5, 6, 7, 8, 9],
      columns = [(''A'', Numeric (map Some [1, 2, 3, 4, 5, 6, 7, 8, 9, 20]))]\<rparr>"


text \<open>The frame built in \<^verbatim>\<open>test_app.py\<close>, lines 17 to 24.\<close>

definition test_cleaning_frame :: dataframe where
  "test_cleaning_frame =
     \<lparr>index = [0, 1, 2, 3, 4, 5],
      columns =
        [(''Name'', Categorical [Some ''John'', Some ''Jane'', Some ''John'', Some ''Mike'',
                                 Some ''Sarah'', None]),
         (''Age'', Numeric [Some 25, Some 30, Some 25, Some 35, Some 28, None]),
         (''Salary'', Numeric [Some 50000, Some 60000, Some 50000, Some 70000, Some 55000,
                              Some 65000]),
         (''Department'', Categorical [Some ''IT'', Some ''HR'', Some ''IT'', Some ''Sales'',
                                       Some ''IT'', Some ''Marketing''])]\<rparr>"

text \<open>
  One numeric column with a repeated row and a missing entry; one numeric column in
  which the median of the others fills the missing entry with a value already present;
  two columns whose labels differ by a space against an underscore.
\<close>

definition repeated_row_frame :: dataframe where
  "repeated_row_frame =
     \<lparr>index = [0, 1, 2, 3], columns = [(''A'', Numeric [Some 1, Some 1, Some 5, None])]\<rparr>"

definition median_present_frame :: dataframe where
  "median_present_frame =
     \<lparr>index = [0, 1, 2, 3], columns = [(''A'', Numeric [Some 1, Some 3, Some 5, None])]\<rparr>"

definition colliding_labels_frame :: dataframe where
  "colliding_labels_frame =
     \<lparr>index = [0, 1],
      columns = [(''a b'', Numeric [Some 1, Some 2]), (''a_b'', Numeric [Some 3, Some 4])]\<rparr>"

text \<open>
  Two labels that both become \<open>dtype\<close>; two labels that differ by a character
  outside the class; a frame with a partly missing and an entirely missing column of
  each kind.
\<close>

definition dtype_labels_frame :: dataframe where
  "dtype_labels_frame =
     \<lparr>index = [0], columns = [(''dtype'', Numeric [Some 1]), ('' dtype'', Numeric [Some 2])]\<rparr>"

definition dollar_labels_frame :: dataframe where
  "dollar_labels_frame =
     \<lparr>index = [0], columns = [(''a$'', Numeric [Some 1]), (''a'', Numeric [Some 2])]\<rparr>"

definition mixed_missing_frame :: dataframe where
  "mixed_missing_frame =
     \<lparr>index = [0, 1, 2, 3, 4],
      columns =
        [(''score'', Numeric [Some 4, None, Some 1, Some 10, Some 2]),
         (''blank'', Numeric [None, None, None, None, None]),
         (''grade'', Categorical [Some ''b'', None, Some ''a'', Some ''b'', Some ''a'']),
         (''note'', Categorical [None, None, None, None, None])]\<rparr>"

section \<open>Columns that imputation leaves alone\<close>

text \<open>
  A numeric column without missing entries or with nothing but missing entries, and a
  categorical column without missing entries.
\<close>

fun settled :: "cells \<Rightarrow> bool" where
  "settled (Numeric xs) = (None \<notin> set xs \<or> set xs \<subseteq> {None})"
| "settled (Categorical xs) = (None \<notin> set xs)"

section \<open>The outlier detector on the columns of \<^verbatim>\<open>test_outlier_detection\<close>\<close>

subsection \<open>Comparing a standardised score with a threshold\<close>

lemma abs_div_sqrt_gt:
  assumes "0 < v" "0 \<le> t"
  shows "(t < \<bar>d\<bar> / sqrt v) = (t\<^sup>2 * v < d\<^sup>2)"
proof -
  have s: "0 < sqrt v" using assms by simp
  have "(t < \<bar>d\<bar> / sqrt v) = (t * sqrt v < \<bar>d\<bar>)"
    using s by (simp add: pos_less_divide_eq)
  also have "\<dots> = ((t * sqrt v)\<^sup>2 < \<bar>d\<bar>\<^sup>2)"
  proof
    assume "t * sqrt v < \<bar>d\<bar>"
    moreover have "0 \<le> t * sqrt v" using assms s by simp
    ultimately show "(t * sqrt v)\<^sup>2 < \<bar>d\<bar>\<^sup>2" by (rule power_strict_mono) simp
  next
    assume "(t * sqrt v)\<^sup>2 < \<bar>d\<bar>\<^sup>2"
    then show "t * sqrt v < \<bar>d\<bar>" by (rule power2_less_imp_less) simp
  qed
  also have "\<dots> = (t\<^sup>2 * v < d\<^sup>2)"
    using assms by (simp add: power_mult_distrib)
  finally show ?thesis .
qed

lemma zscore_flags:
  assumes "pstd xs = sqrt v" "0 < v" "0 \<le> t"
  shows "map (\<lambda>z. case z of None \<Rightarrow> False | Some a \<Rightarrow> a > t) (map (map_option abs) (zscore xs))
         = map (\<lambda>x. t\<^sup>2 * v < (x - mean xs)\<^sup>2) xs"
proof -
  have "sqrt v \<noteq> 0" using assms(2) by simp
  then show ?thesis
    using assms by (simp add: zscore_def Let_def abs_div_sqrt_gt [symmetric])
qed

lemma mean_with_outliers: "mean [1, 2, 3, 4, 5, 6, 7, 8, 9, 100] = 29 / 2"
  by (simp add: mean_def)

lemma pstd_with_outliers: "pstd [1, 2, 3, 4, 5, 6, 7, 8, 9, 100] = sqrt (3273 / 4)"
  by (simp add: pstd_def mean_with_outliers power2_eq_square)

lemma flags_with_outliers:
  "map (\<lambda>z. case z of None \<Rightarrow> False | Some a \<Rightarrow> a > 3)
     (map (map_option abs) (zscore [1, 2, 3, 4, 5, 6, 7, 8, 9, 100]))
   = replicate 10 False"
proof -
  have "(0::real) < 3273 / 4" "(0::real) \<le> 3" by simp_all
  from zscore_flags [OF pstd_with_outliers this] show ?thesis
    by (simp add: mean_with_outliers power2_eq_square numeral_eq_Suc)
qed

lemma mean_normal_values: "mean [1, 2, 3, 4, 5, 6, 7, 8, 9, 10] = 11 / 2"
  by (simp add: mean_def)

lemma pstd_normal_values: "pstd [1, 2, 3, 4, 5, 6, 7, 8, 9, 10] = sqrt (33 / 4)"
  by (simp add: pstd_def mean_normal_values power2_eq_square)

lemma flags_normal_values:
  "map (\<lambda>z. case z of None \<Rightarrow> False | Some a \<Rightarrow> a > 3)
     (map (map_option abs) (zscore [1, 2, 3, 4, 5, 6, 7, 8, 9, 10]))
   = replicate 10 False"
proof -
  have "(0::real) < 33 / 4" "(0::real) \<le> 3" by simp_all
  from zscore_flags [OF pstd_normal_values this] show ?thesis
    by (simp add: mean_normal_values power2_eq_square numeral_eq_Suc)
qed

lemma dropna_map_Some: "dropna (map Some ys) = ys"
  by (induction ys) simp_all

lemma zscore_outliers_with_outliers:
  "zscore_outliers [0, 1, 2, 3, 4, 5, 6, 7, 8, 9] (map Some [1, 2, 3, 4, 5, 6, 7, 8, 9, 100]) = Inr []"
  unfolding zscore_outliers_def Let_def dropna_map_Some flags_with_outliers
  by (simp add: select_def numeral_eq_Suc)

lemma zscore_outliers_normal_values:
  "zscore_outliers [0, 1, 2, 3, 4, 5, 6, 7, 8, 9] (map Some [1, 2, 3, 4, 5, 6, 7, 8, 9, 10]) = Inr []"
  unfolding zscore_outliers_def Let_def dropna_map_Some flags_normal_values
  by (simp add: select_def numeral_eq_Suc)

text \<open>
  C2, as stated, fails.  With the mean 14.5 and the population standard deviation
  \<open>sqrt 818.25\<close> of the column, the score of 100 is \<open>85.5 / sqrt 818.25\<close>, below 3
  (its square is \<open>7310.25 / 818.25\<close>, below 9): the Z-score method with threshold 3
  flags no entry of the column \<open>[1, 2, 3, 4, 5, 6, 7, 8, 9, 100]\<close>, and the entry 100
  with row label 9 is not in the result.
\<close>

theorem C2_zscore_does_not_flag_100:
  "zscore_outliers [0, 1, 2, 3, 4, 5, 6, 7, 8, 9] (map Some [1, 2, 3, 4, 5, 6, 7, 8, 9, 100])
     = Inr []
   \<and> zscore [1, 2, 3, 4, 5, 6, 7, 8, 9, 100] ! 9 = Some (171 / (2 * sqrt (3273 / 4)))
   \<and> 171 / (2 * sqrt (3273 / 4)) < 3"
proof -
  have "(171::real) / (2 * sqrt (3273 / 4)) = \<bar>171 / 2\<bar> / sqrt (3273 / 4)" by simp
  moreover have "\<not> 3 < \<bar>171 / 2 :: real\<bar> / sqrt (3273 / 4)"
    by (subst abs_div_sqrt_gt) (simp_all add: power2_eq_square)
  moreover have "\<bar>171 / 2 :: real\<bar> / sqrt (3273 / 4) \<noteq> 3"
  proof
    assume "\<bar>171 / 2 :: real\<bar> / sqrt (3273 / 4) = 3"
    then have "(\<bar>171 / 2 :: real\<bar> / sqrt (3273 / 4))\<^sup>2 = 3\<^sup>2" by simp
    then show False by (simp add: power_divide power2_eq_square)
  qed
  ultimately have lt: "(171::real) / (2 * sqrt (3273 / 4)) < 3" by linarith
  have z: "zscore [1, 2, 3, 4, 5, 6, 7, 8, 9, 100] ! 9 = Some (171 / (2 * sqrt (3273 / 4)))"
    by (simp add: zscore_def Let_def mean_with_outliers pstd_with_outliers)
  show ?thesis
    using lt z zscore_outliers_with_outliers by simp
qed

text \<open>
  C2, amended: on the frame of the test, \<^verbatim>\<open>detect_outliers(df, method='zscore')\<close>
  returns an empty series for both columns; in particular it flags nothing in the
  column \<open>[1, 2, 3, 4, 5, 6, 7, 8, 9, 100]\<close>.
\<close>

theorem C2_zscore_on_test_frame:
  "detect_outliers test_outlier_frame ''zscore''
     = Inr [(''Normal_Values'', []), (''With_Outliers'', [])]"
  using zscore_outliers_with_outliers zscore_outliers_normal_values
  by (simp add: detect_outliers_def numerical_cols_def is_numeric_def test_outlier_frame_def getitem_def)

lemma quantiles_normal_values:
  "quantile [1, 2, 3, 4, 5, 6, 7, 8, 9, 10] 0.25 = Some 3.25"
  "quantile [1, 2, 3, 4, 5, 6, 7, 8, 9, 10] 0.75 = Some 7.75"
  by (simp_all add: quantile_def Let_def)

text \<open>
  C3: the quartiles of \<open>[1, ..., 10]\<close> by linear interpolation are 3.25 and 7.75, so
  the bounds with multiplier 1.5 are \<open>-3.5\<close> and \<open>14.5\<close>; on the frame of the test,
  \<^verbatim>\<open>detect_outliers(df, method='iqr')\<close> flags nothing in the column
  \<open>[1, ..., 10]\<close> and flags exactly the entry 100 (row label 9) in the column
  \<open>[1, ..., 9, 100]\<close>.
\<close>

theorem C3_iqr_on_test_frame:
  "quantile [1, 2, 3, 4, 5, 6, 7, 8, 9, 10] 0.25 = Some 3.25
   \<and> quantile [1, 2, 3, 4, 5, 6, 7, 8, 9, 10] 0.75 = Some 7.75
   \<and> (3.25 - 1.5 * (7.75 - 3.25) = (-3.5 :: real))
   \<and> (7.75 + 1.5 * (7.75 - 3.25) = (14.5 :: real))
   \<and> detect_outliers test_outlier_frame ''iqr''
       = Inr [(''Normal_Values'', []), (''With_Outliers'', [(9, Some 100)])]"
proof -
  have "detect_outliers test_outlier_frame ''iqr''
       = Inr [(''Normal_Values'', []), (''With_Outliers'', [(9, Some 100)])]"
    by (simp add: detect_outliers_def numerical_cols_def is_numeric_def test_outlier_frame_def getitem_def
        iqr_outliers_def quantile_def)
  then show ?thesis
    using quantiles_normal_values by simp
qed

section \<open>The method argument of \<^verbatim>\<open>detect_outliers\<close>\<close>

lemma detect_loop_other_method:
  "method \<noteq> ''iqr'' \<Longrightarrow> method \<noteq> ''zscore'' \<Longrightarrow> detect_loop df method cols acc = Inr acc"
  by (induction cols arbitrary: acc) simp_all

text \<open>
  C10: for every frame, a method string other than \<^verbatim>\<open>'iqr'\<close> and
  \<^verbatim>\<open>'zscore'\<close> makes \<^verbatim>\<open>detect_outliers\<close> return the empty dictionary, with
  no error: each numeric column is passed over without being read.
\<close>

theorem C10_unknown_method_empty:
  "method \<noteq> ''iqr'' \<Longrightarrow> method \<noteq> ''zscore'' \<Longrightarrow> detect_outliers df method = Inr []"
  by (simp add: detect_outliers_def detect_loop_other_method)

theorem C10_unknown_method_empty_witness:
  "''mad'' \<noteq> ''iqr'' \<and> ''mad'' \<noteq> ''zscore'' \<and> numerical_cols test_outlier_frame \<noteq> []
   \<and> detect_outliers test_outlier_frame ''mad'' = Inr []"
  using C10_unknown_method_empty [of "''mad''" test_outlier_frame]
  by (simp add: numerical_cols_def is_numeric_def test_outlier_frame_def)

section \<open>The outlier summary of the report\<close>

lemma dict_set_append:
  "k \<notin> set (map fst d) \<Longrightarrow> dict_set d k v = d @ [(k, v)]"
  by (induction d) auto

lemma summary_loop_rows:
  assumes "index df \<noteq> []" "distinct (map fst acc @ map fst outliers)"
  shows "summary_loop df outliers acc =
           Inr (acc @ map (\<lambda>(col, s). (col, \<lparr>count = length s,
                  percentage = 100 * real (length s) / real (length (index df))\<rparr>)) outliers)"
  using assms(2)
proof (induction outliers arbitrary: acc)
  case Nil
  then show ?case by simp
next
  case (Cons p outliers)
  obtain col s where p: "p = (col, s)" by (cases p)
  have new: "col \<notin> set (map fst acc)" using Cons.prems p by auto
  let ?e = "\<lparr>count = length s,
             percentage = (real (length s) / real (length (index df))) * 100\<rparr>"
  have "distinct (map fst (acc @ [(col, ?e)]) @ map fst outliers)"
    using Cons.prems p by auto
  from Cons.IH [OF this] show ?case
    using assms(1) new p by (simp add: dict_set_append)
qed

lemma summary_loop_no_rows:
  "index df = [] \<Longrightarrow> outliers \<noteq> [] \<Longrightarrow> summary_loop df outliers acc = Inl ZeroDivisionError"
  by (cases outliers) auto

text \<open>
  C7, as stated, fails on its second half: with no rows and a column in the outlier
  map, line 102 divides by \<^verbatim>\<open>len(df) = 0\<close> and the report computation ends in
  Python's ZeroDivisionError, which is not the UndefinedStatisticError of the claim.
\<close>

theorem C7_no_rows_zero_division:
  "generate_eda_report no_rows_frame [(''A'', [])] = Inl ZeroDivisionError
   \<and> generate_eda_report no_rows_frame [(''A'', [])] \<noteq> Inl UndefinedStatisticError"
  by (simp add: generate_eda_report_def no_rows_frame_def)

text \<open>
  C7, amended: over a frame of \<open>n > 0\<close> rows the report holds, for every column of
  the outlier map with \<open>c\<close> flagged entries, the count \<open>c\<close> and the percentage
  \<open>100 * c / n\<close>, in the order of the map; over a frame without rows the computation
  raises ZeroDivisionError as soon as the outlier map has a column, and returns an
  empty summary when the map is empty.  (The keys of a dictionary are distinct.)
\<close>

theorem C7_outlier_summary:
  "distinct (map fst outliers) \<Longrightarrow>
     (index df \<noteq> [] \<longrightarrow>
        (\<exists>r. generate_eda_report df outliers = Inr r
           \<and> outlier_summary r =
               map (\<lambda>(col, s). (col, \<lparr>count = length s,
                      percentage = 100 * real (length s) / real (length (index df))\<rparr>)) outliers))
   \<and> (index df = [] \<and> outliers \<noteq> [] \<longrightarrow> generate_eda_report df outliers = Inl ZeroDivisionError)
   \<and> (outliers = [] \<longrightarrow> (\<exists>r. generate_eda_report df outliers = Inr r \<and> outlier_summary r = []))"
proof (intro conjI impI)
  assume d: "distinct (map fst outliers)" and n: "index df \<noteq> []"
  have "distinct (map fst ([] :: (string \<times> summary_entry) list) @ map fst outliers)"
    using d by simp
  from summary_loop_rows [OF n this]
  show "\<exists>r. generate_eda_report df outliers = Inr r
           \<and> outlier_summary r =
               map (\<lambda>(col, s). (col, \<lparr>count = length s,
                      percentage = 100 * real (length s) / real (length (index df))\<rparr>)) outliers"
    by (simp add: generate_eda_report_def)
next
  assume "index df = [] \<and> outliers \<noteq> []"
  then show "generate_eda_report df outliers = Inl ZeroDivisionError"
    by (simp add: generate_eda_report_def summary_loop_no_rows)
next
  assume "outliers = []"
  then show "\<exists>r. generate_eda_report df outliers = Inr r \<and> outlier_summary r = []"
    by (simp add: generate_eda_report_def)
qed

theorem C7_outlier_summary_witness:
  "distinct (map fst [(''A'', [(2 :: nat, Some (50 :: real))])])
   \<and> index three_rows_frame \<noteq> []
   \<and> (\<exists>r. generate_eda_report three_rows_frame [(''A'', [(2, Some 50)])] = Inr r
          \<and> outlier_summary r = [(''A'', \<lparr>count = 1, percentage = 100 / 3\<rparr>)])
   \<and> index no_rows_frame = [] \<and> [(''A'', [])] \<noteq> ([] :: (string \<times> series) list)
   \<and> generate_eda_report no_rows_frame [(''A'', [])] = Inl ZeroDivisionError
   \<and> (\<exists>r. generate_eda_report three_rows_frame [] = Inr r \<and> outlier_summary r = [])"
  using C7_outlier_summary [of "[(''A'', [(2, Some 50)])]" three_rows_frame]
    C7_outlier_summary [of "[(''A'', [])]" no_rows_frame]
    C7_outlier_summary [of "[]" three_rows_frame]
  by (simp add: three_rows_frame_def no_rows_frame_def)

section \<open>The detector of the code and the configurable detector of the specification\<close>

lemma quantile_Nil: "quantile [] q = None"
  by (simp add: quantile_def)

lemma quantile_single: "quantile [v] q = Some v"
  by (simp add: quantile_def)

lemma quantile_Some: "xs \<noteq> [] \<Longrightarrow> \<exists>y. quantile xs q = Some y"
  by (simp add: quantile_def Let_def)

lemma set_dropna: "set (dropna xs) = {v. Some v \<in> set xs}"
  by (induction xs rule: dropna.induct) auto

lemma iqr_outliers_spec: "iqr_outliers idx xs = spec_iqr_outliers 1.5 idx xs"
proof (cases "dropna xs")
  case Nil
  then show ?thesis
    by (simp add: iqr_outliers_def spec_iqr_outliers_def quantile_Nil)
next
  case (Cons v vs)
  show ?thesis
  proof (cases vs)
    case Nil
    have "\<And>i x. (i, x) \<in> set (zip idx xs) \<Longrightarrow> x = None \<or> x = Some v"
    proof -
      fix i x assume "(i, x) \<in> set (zip idx xs)"
      then have xin: "x \<in> set xs" by (rule set_zip_rightD)
      show "x = None \<or> x = Some v"
      proof (cases x)
        case None
        then show ?thesis by simp
      next
        case (Some w)
        with xin have "w \<in> set (dropna xs)" by (simp add: set_dropna)
        with Cons Nil Some show ?thesis by simp
      qed
    qed
    then have "filter (\<lambda>(i, x). case x of None \<Rightarrow> False | Some w \<Rightarrow> w < v \<or> v < w) (zip idx xs) = []"
      by (fastforce simp: filter_empty_conv split: option.splits)
    then show ?thesis
      using Cons Nil by (simp add: iqr_outliers_def spec_iqr_outliers_def quantile_single)
  next
    case (Cons w ws)
    obtain a b where "quantile (dropna xs) (1 / 4) = Some a" "quantile (dropna xs) (3 / 4) = Some b"
      using quantile_Some [of "dropna xs"] \<open>dropna xs = v # vs\<close> by (metis list.distinct(1))
    then show ?thesis
      using Cons \<open>dropna xs = v # vs\<close>
      by (simp add: iqr_outliers_def spec_iqr_outliers_def Let_def)
  qed
qed

lemma select_zip_map:
  "select (zip idx (map Some ys)) (map p ys)
     = filter (\<lambda>(i, x). case x of None \<Rightarrow> False | Some v \<Rightarrow> p v) (zip idx (map Some ys))"
proof (induction ys arbitrary: idx)
  case Nil
  then show ?case by (simp add: select_def)
next
  case (Cons y ys)
  then show ?case by (cases idx) (simp_all add: select_def)
qed

lemma map_Some_dropna: "None \<notin> set xs \<Longrightarrow> map Some (dropna xs) = xs"
  by (induction xs rule: dropna.induct) auto

lemma pstd_short: "length ys < 2 \<Longrightarrow> pstd ys = 0"
proof (cases ys)
  case Nil
  then show ?thesis by (simp add: pstd_def)
next
  case (Cons y zs)
  assume "length ys < 2"
  with Cons have "zs = []" by simp
  with Cons show ?thesis by (simp add: pstd_def mean_def)
qed

lemma zscore_outliers_spec:
  assumes "None \<notin> set xs"
  shows "zscore_outliers idx xs = Inr (spec_zscore_outliers 3 idx xs)"
proof -
  define ys where "ys = dropna xs"
  have xs: "xs = map Some ys" using assms by (simp add: ys_def map_Some_dropna)
  define p where "p = (\<lambda>v. case map_option abs (if pstd ys = 0 then None
                          else Some ((v - mean ys) / pstd ys)) of None \<Rightarrow> False | Some a \<Rightarrow> 3 < a)"
  have flags: "map (\<lambda>z. case z of None \<Rightarrow> False | Some a \<Rightarrow> a > 3)
                 (map (map_option abs) (zscore ys)) = map p ys"
    by (simp add: zscore_def Let_def p_def)
  have code: "zscore_outliers idx xs
      = Inr (filter (\<lambda>(i, x). case x of None \<Rightarrow> False | Some v \<Rightarrow> p v) (zip idx xs))"
    unfolding zscore_outliers_def Let_def xs dropna_map_Some flags
    by (simp add: select_zip_map)
  show ?thesis
  proof (cases "pstd ys = 0")
    case True
    then have "\<And>v. \<not> p v" by (simp add: p_def)
    then have "filter (\<lambda>(i, x). case x of None \<Rightarrow> False | Some v \<Rightarrow> p v) (zip idx xs) = []"
      by (auto simp: filter_empty_conv split: option.splits)
    then show ?thesis
      using True by (simp add: code spec_zscore_outliers_def ys_def [symmetric])
  next
    case False
    then have nl: "\<not> length ys < 2" using pstd_short by blast
    have peq: "p = (\<lambda>v. 3 < \<bar>(v - mean ys) / pstd ys\<bar>)"
      using False by (simp add: p_def fun_eq_iff)
    show ?thesis
      unfolding code peq
      using False nl by (simp add: spec_zscore_outliers_def ys_def [symmetric])
  qed
qed

lemma getitem_distinct:
  "distinct (map fst cs) \<Longrightarrow> (n, v) \<in> set cs \<Longrightarrow> map snd (filter (\<lambda>c. fst c = n) cs) = [v]"
proof (induction cs)
  case Nil
  then show ?case by simp
next
  case (Cons c cs)
  show ?case
  proof (cases "c = (n, v)")
    case True
    then have "n \<notin> fst ` set cs" using Cons.prems(1) by auto
    then have "filter (\<lambda>c. fst c = n) cs = []"
      by (auto simp: filter_empty_conv)
    with True show ?thesis by simp
  next
    case False
    then have "(n, v) \<in> set cs" using Cons.prems(2) by simp
    moreover have "fst c \<noteq> n" using Cons.prems(1) calculation by (auto simp: image_iff)
    ultimately show ?thesis using Cons by simp
  qed
qed

lemma detect_loop_iqr:
  assumes "distinct (column_names df)"
  shows "set cs \<subseteq> set (columns df) \<Longrightarrow> list_all is_numeric cs
      \<Longrightarrow> distinct (map fst acc @ map fst cs)
      \<Longrightarrow> detect_loop df ''iqr'' (map fst cs) acc
          = Inr (acc @ map (\<lambda>(n, v). (n, case v of Numeric xs \<Rightarrow> iqr_outliers (index df) xs
                                                | Categorical _ \<Rightarrow> [])) cs)"
proof (induction cs arbitrary: acc)
  case Nil
  then show ?case by simp
next
  case (Cons c cs)
  obtain n xs where c: "c = (n, Numeric xs)"
    using Cons.prems(2) by (cases c; cases "snd c") (auto simp: is_numeric_def)
  have "(n, Numeric xs) \<in> set (columns df)" using Cons.prems(1) c by simp
  then have g: "getitem df n = [Numeric xs]"
    using assms by (simp add: getitem_def column_names_def getitem_distinct)
  have new: "n \<notin> set (map fst acc)" using Cons.prems(3) c by auto
  have "distinct (map fst (acc @ [(n, iqr_outliers (index df) xs)]) @ map fst cs)"
    using Cons.prems(3) c by auto
  with Cons.IH [of "acc @ [(n, iqr_outliers (index df) xs)]"] Cons.prems
  show ?case
    using g new c by (simp add: dict_set_append)
qed

lemma detect_loop_zscore:
  assumes "distinct (column_names df)"
    and "\<And>n xs. (n, Numeric xs) \<in> set (columns df) \<Longrightarrow> None \<notin> set xs"
  shows "set cs \<subseteq> set (columns df) \<Longrightarrow> list_all is_numeric cs
      \<Longrightarrow> distinct (map fst acc @ map fst cs)
      \<Longrightarrow> detect_loop df ''zscore'' (map fst cs) acc
          = Inr (acc @ map (\<lambda>(n, v). (n, case v of Numeric xs \<Rightarrow> spec_zscore_outliers 3 (index df) xs
                                                | Categorical _ \<Rightarrow> [])) cs)"
proof (induction cs arbitrary: acc)
  case Nil
  then show ?case by simp
next
  case (Cons c cs)
  obtain n xs where c: "c = (n, Numeric xs)"
    using Cons.prems(2) by (cases c; cases "snd c") (auto simp: is_numeric_def)
  have mem: "(n, Numeric xs) \<in> set (columns df)" using Cons.prems(1) c by simp
  then have g: "getitem df n = [Numeric xs]"
    using assms(1) by (simp add: getitem_def column_names_def getitem_distinct)
  have z: "zscore_outliers (index df) xs = Inr (spec_zscore_outliers 3 (index df) xs)"
    using assms(2) [OF mem] by (rule zscore_outliers_spec)
  have new: "n \<notin> set (map fst acc)" using Cons.prems(3) c by auto
  have "distinct (map fst (acc @ [(n, spec_zscore_outliers 3 (index df) xs)]) @ map fst cs)"
    using Cons.prems(3) c by auto
  with Cons.IH [of "acc @ [(n, spec_zscore_outliers 3 (index df) xs)]"] Cons.prems
  show ?case
    using g new c z by (simp add: dict_set_append)
qed

lemma numeric_columns_facts:
  assumes "distinct (column_names df)"
  shows "set (filter is_numeric (columns df)) \<subseteq> set (columns df)"
    and "list_all is_numeric (filter is_numeric (columns df))"
    and "distinct (map fst ([] :: (string \<times> series) list) @ map fst (filter is_numeric (columns df)))"
  using assms by (auto simp: list_all_iff column_names_def distinct_map_filter)

text \<open>
  C9, as stated, fails: \<^verbatim>\<open>detect_outliers(df, method)\<close> takes no multiplier and no
  threshold, and lines 69, 70 and 74 use the literals 1.5 and 3.  On the column
  \<open>[1, ..., 9, 20]\<close> a caller's multiplier 3 gives the bounds \<open>-10.25\<close> and
  \<open>21.25\<close>, within which 20 lies, while the code flags 20; on the column
  \<open>[1, ..., 9, 100]\<close> a caller's threshold 2 is exceeded by the score of 100, while
  the code flags nothing.
\<close>

theorem C9_multiplier_and_threshold_fixed:
  "detect_outliers mild_outlier_frame ''iqr'' = Inr [(''A'', [(9, Some 20)])]
   \<and> spec_detect_outliers (default_config\<lparr>IQR_MULTIPLIER := 3\<rparr>) mild_outlier_frame = [(''A'', [])]
   \<and> zscore_outliers [0, 1, 2, 3, 4, 5, 6, 7, 8, 9] (map Some [1, 2, 3, 4, 5, 6, 7, 8, 9, 100])
       = Inr []
   \<and> spec_zscore_outliers 2 [0, 1, 2, 3, 4, 5, 6, 7, 8, 9] (map Some [1, 2, 3, 4, 5, 6, 7, 8, 9, 100])
       = [(9, Some 100)]"
proof -
  have a: "detect_outliers mild_outlier_frame ''iqr'' = Inr [(''A'', [(9, Some 20)])]"
    by (simp add: detect_outliers_def numerical_cols_def is_numeric_def mild_outlier_frame_def getitem_def
        iqr_outliers_def quantile_def)
  have b: "spec_detect_outliers (default_config\<lparr>IQR_MULTIPLIER := 3\<rparr>) mild_outlier_frame = [(''A'', [])]"
    by (simp add: spec_detect_outliers_def default_config_def mild_outlier_frame_def
        is_numeric_def spec_iqr_outliers_def quantile_def)
  have s: "sqrt (3273 / 4) \<noteq> 0" by simp
  have t: "(2 < \<bar>d / sqrt (3273 / 4)\<bar>) = (2\<^sup>2 * (3273 / 4) < d\<^sup>2)" for d :: real
  proof -
    have "\<bar>d / sqrt (3273 / 4)\<bar> = \<bar>d\<bar> / sqrt (3273 / 4)"
      by (simp add: abs_divide)
    moreover have "(2 < \<bar>d\<bar> / sqrt (3273 / 4)) = (2\<^sup>2 * (3273 / 4) < d\<^sup>2)"
      by (rule abs_div_sqrt_gt) simp_all
    ultimately show ?thesis by (simp only:)
  qed
  have c: "spec_zscore_outliers 2 [0, 1, 2, 3, 4, 5, 6, 7, 8, 9] (map Some [1, 2, 3, 4, 5, 6, 7, 8, 9, 100])
       = [(9, Some 100)]"
    unfolding spec_zscore_outliers_def dropna_map_Some mean_with_outliers pstd_with_outliers t
    using s by (simp add: power2_eq_square)
  show ?thesis
    using a b c zscore_outliers_with_outliers by simp
qed

text \<open>
  C9, amended: the method is an argument of each call (default \<^verbatim>\<open>'iqr'\<close>), while the
  multiplier and the threshold are fixed: on every frame with distinct column labels,
  \<^verbatim>\<open>detect_outliers\<close> with \<^verbatim>\<open>'iqr'\<close> returns what the configurable detector of the
  specification returns for the multiplier 1.5 of the default configuration, and with
  \<^verbatim>\<open>'zscore'\<close>, when no numeric column has a missing entry, what it returns for the
  threshold 3.0 of the default configuration.
\<close>

theorem C9_detector_is_spec_at_defaults:
  "distinct (column_names df) \<Longrightarrow>
     detect_outliers df ''iqr''
       = Inr (spec_detect_outliers (default_config\<lparr>OUTLIER_DETECTION_METHOD := ''iqr''\<rparr>) df)
   \<and> ((\<forall>c \<in> set (columns df). case snd c of Numeric xs \<Rightarrow> None \<notin> set xs | Categorical _ \<Rightarrow> True)
        \<longrightarrow> detect_outliers df ''zscore''
              = Inr (spec_detect_outliers (default_config\<lparr>OUTLIER_DETECTION_METHOD := ''zscore''\<rparr>) df))"
proof (intro conjI impI)
  assume d: "distinct (column_names df)"
  have "map (\<lambda>(n, v). (n, case v of Numeric xs \<Rightarrow> iqr_outliers (index df) xs | Categorical _ \<Rightarrow> []))
          (filter is_numeric (columns df))
        = spec_detect_outliers (default_config\<lparr>OUTLIER_DETECTION_METHOD := ''iqr''\<rparr>) df"
    by (auto simp: spec_detect_outliers_def default_config_def iqr_outliers_spec
        split: cells.splits)
  with detect_loop_iqr [OF d numeric_columns_facts [OF d]]
  show "detect_outliers df ''iqr''
       = Inr (spec_detect_outliers (default_config\<lparr>OUTLIER_DETECTION_METHOD := ''iqr''\<rparr>) df)"
    by (simp add: detect_outliers_def numerical_cols_def)
next
  assume d: "distinct (column_names df)"
    and m: "\<forall>c \<in> set (columns df). case snd c of Numeric xs \<Rightarrow> None \<notin> set xs | Categorical _ \<Rightarrow> True"
  have m': "\<And>n xs. (n, Numeric xs) \<in> set (columns df) \<Longrightarrow> None \<notin> set xs"
    using m by force
  have "map (\<lambda>(n, v). (n, case v of Numeric xs \<Rightarrow> spec_zscore_outliers 3 (index df) xs | Categorical _ \<Rightarrow> []))
          (filter is_numeric (columns df))
        = spec_detect_outliers (default_config\<lparr>OUTLIER_DETECTION_METHOD := ''zscore''\<rparr>) df"
    by (auto simp: spec_detect_outliers_def default_config_def split: cells.splits)
  with detect_loop_zscore [OF d m' numeric_columns_facts [OF d]]
  show "detect_outliers df ''zscore''
       = Inr (spec_detect_outliers (default_config\<lparr>OUTLIER_DETECTION_METHOD := ''zscore''\<rparr>) df)"
    by (simp add: detect_outliers_def numerical_cols_def)
qed

theorem C9_detector_is_spec_at_defaults_witness:
  "distinct (column_names test_outlier_frame)
   \<and> list_all (\<lambda>c. case snd c of Numeric xs \<Rightarrow> None \<notin> set xs | Categorical _ \<Rightarrow> True)
         (columns test_outlier_frame)
   \<and> detect_outliers test_outlier_frame ''iqr''
       = Inr (spec_detect_outliers (default_config\<lparr>OUTLIER_DETECTION_METHOD := ''iqr''\<rparr>)
               test_outlier_frame)
   \<and> detect_outliers test_outlier_frame ''zscore''
       = Inr (spec_detect_outliers (default_config\<lparr>OUTLIER_DETECTION_METHOD := ''zscore''\<rparr>)
               test_outlier_frame)"
proof -
  have d: "distinct (column_names test_outlier_frame)"
    by (simp add: column_names_def test_outlier_frame_def)
  have m: "\<forall>c \<in> set (columns test_outlier_frame).
         case snd c of Numeric xs \<Rightarrow> None \<notin> set xs | Categorical _ \<Rightarrow> True"
    by (simp add: test_outlier_frame_def)
  from C9_detector_is_spec_at_defaults [OF d] d m show ?thesis
    by (simp add: list_all_iff)
qed

section \<open>Column-name normalisation\<close>

lemma in_class_not_space: "in_class c \<Longrightarrow> \<not> isspace c \<and> c \<noteq> CHR '' ''"
  by (auto simp: in_class_def isspace_def less_eq_char_def)

lemma dropWhile_none: "\<forall>c \<in> set s. \<not> P c \<Longrightarrow> dropWhile P s = s"
  by (cases s) simp_all

lemma str_strip_none: "\<forall>c \<in> set s. \<not> isspace c \<Longrightarrow> str_strip s = s"
  by (simp add: str_strip_def dropWhile_none)


lemma str_replace_absent:
  assumes "old \<noteq> []" "hd old \<notin> set s"
  shows "str_replace old new s = s"
  using assms(2)
proof (induction s)
  case Nil
  then show ?case using assms(1) by simp
next
  case (Cons c cs)
  have "take (length old) (c # cs) \<noteq> old"
  proof
    assume "take (length old) (c # cs) = old"
    then have "hd old = c" using assms(1) by (cases old) auto
    with Cons.prems show False by simp
  qed
  with Cons assms(1) show ?case by simp
qed

lemma bracket_outside_class: "\<not> in_class (CHR ''['')"
  by (simp add: in_class_def less_eq_char_def)

lemma pattern_absent:
  assumes "\<forall>c \<in> set t. in_class c"
  shows "str_replace ''[^a-zA-Z0-9_]'' [] t = t"
proof -
  have "CHR ''['' \<notin> set t" using assms bracket_outside_class by auto
  then show ?thesis by (intro str_replace_absent) simp_all
qed

lemma normalize_name_in_class: "c \<in> set (normalize_name True s) \<Longrightarrow> in_class c"
  by (simp add: normalize_name_def re_remove_outside_class_def)

lemma normalize_name_fixed:
  assumes "\<forall>c \<in> set s. in_class c"
  shows "normalize_name regex s = s"
proof -
  have "str_strip s = s"
    using assms by (intro str_strip_none) (auto dest: in_class_not_space)
  moreover have "str_replace_char (CHR '' '') (CHR ''_'') s = s"
    unfolding str_replace_char_def using assms by (intro map_idI) (auto dest: in_class_not_space)
  moreover have "filter in_class s = s"
    using assms by simp
  moreover have "str_replace ''[^a-zA-Z0-9_]'' [] s = s"
    using assms by (rule pattern_absent)
  ultimately show ?thesis
    by (simp add: normalize_name_def re_remove_outside_class_def)
qed

lemma normalize_name_idem:
  "normalize_name True (normalize_name True s) = normalize_name True s"
  by (rule normalize_name_fixed) (simp add: normalize_name_in_class)





lemma rename_columns_names:
  "column_names (rename_columns regex df) = map (normalize_name regex) (column_names df)"
  by (simp add: rename_columns_def column_names_def case_prod_unfold comp_def)

lemma rename_columns_data:
  "map snd (columns (rename_columns regex df)) = map snd (columns df)"
  by (simp add: rename_columns_def case_prod_unfold comp_def)




section \<open>The imputation loop\<close>

lemma getitem_length: "length (getitem df n) = count_list (column_names df) n"
  by (simp add: getitem_def column_names_def count_list_eq_length_filter filter_map comp_def
      eq_commute)

lemma column_names_setitem:
  "col \<in> set (column_names df) \<Longrightarrow> column_names (setitem df col v) = column_names df"
  by (auto simp: setitem_def column_names_def case_prod_unfold)

lemma replace_absent:
  "n \<notin> fst ` set cs \<Longrightarrow> map (\<lambda>(m, old). if m = n then (m, v) else (m, old)) cs = cs"
  by (induction cs) auto

lemma impute_loop_distinct:
  "distinct (map fst (pre @ cs)) \<Longrightarrow>
     impute_loop (map fst cs) (df\<lparr>columns := pre @ cs\<rparr>)
       = Inr (df\<lparr>columns := pre @ map (apsnd impute_column) cs\<rparr>)"
proof (induction cs arbitrary: pre)
  case Nil
  then show ?case by simp
next
  case (Cons c cs)
  obtain n v where c: "c = (n, v)" by (cases c)
  have d: "distinct (map fst (pre @ (n, v) # cs))" using Cons.prems c by simp
  have "map snd (filter (\<lambda>c. fst c = n) (pre @ (n, v) # cs)) = [v]"
    by (rule getitem_distinct [OF d]) simp
  then have g: "getitem (df\<lparr>columns := pre @ (n, v) # cs\<rparr>) n = [v]"
    by (simp add: getitem_def)
  have "n \<notin> fst ` set pre" "n \<notin> fst ` set cs" using d by auto
  then have s: "setitem (df\<lparr>columns := pre @ (n, v) # cs\<rparr>) n (impute_column v)
           = df\<lparr>columns := (pre @ [(n, impute_column v)]) @ cs\<rparr>"
    by (simp add: setitem_def column_names_def replace_absent)
  have "distinct (map fst ((pre @ [(n, impute_column v)]) @ cs))" using d by simp
  from Cons.IH [OF this] show ?case
    using c g s by simp
qed

lemma impute_missing_distinct:
  assumes "distinct (column_names df)"
  shows "impute_missing df = Inr (df\<lparr>columns := map (apsnd impute_column) (columns df)\<rparr>)"
proof -
  have "distinct (map fst ([] @ columns df))" using assms by (simp add: column_names_def)
  from impute_loop_distinct [OF this, of df] show ?thesis
    by (simp add: impute_missing_def column_names_def)
qed

lemma impute_loop_Inr_single:
  "impute_loop cols df = Inr d \<Longrightarrow> n \<in> set cols \<Longrightarrow> count_list (column_names df) n = 1"
proof (induction cols arbitrary: df)
  case Nil
  then show ?case by simp
next
  case (Cons col cols)
  from Cons.prems(1) obtain v where g: "getitem df col = [v]"
    by (auto split: list.splits)
  then have one: "count_list (column_names df) col = 1"
    using getitem_length [of df col] by simp
  then have mem: "col \<in> set (column_names df)"
    using count_list_0_iff [of "column_names df" col] by auto
  show ?case
  proof (cases "n = col")
    case True
    with one show ?thesis by simp
  next
    case False
    then have "n \<in> set cols" using Cons.prems(2) by simp
    moreover have "impute_loop cols (setitem df col (impute_column v)) = Inr d"
      using Cons.prems(1) g by simp
    ultimately have "count_list (column_names (setitem df col (impute_column v))) n = 1"
      by (rule Cons.IH [rotated])
    then show ?thesis by (simp add: column_names_setitem [OF mem])
  qed
qed

lemma distinct_if_counts_one: "(\<And>n. n \<in> set xs \<Longrightarrow> count_list xs n = 1) \<Longrightarrow> distinct xs"
proof (induction xs)
  case Nil
  then show ?case by simp
next
  case (Cons x xs)
  have "count_list (x # xs) x = 1" using Cons.prems [of x] by simp
  then have x: "x \<notin> set xs" by (simp add: count_list_0_iff)
  have "\<And>n. n \<in> set xs \<Longrightarrow> count_list xs n = 1"
  proof -
    fix n assume n: "n \<in> set xs"
    then have "count_list (x # xs) n = 1" using Cons.prems [of n] by simp
    moreover have "n \<noteq> x" using n x by auto
    ultimately show "count_list xs n = 1" by simp
  qed
  then have "distinct xs" by (rule Cons.IH)
  with x show ?case by simp
qed

lemma impute_missing_Inr_distinct:
  "impute_missing df = Inr d \<Longrightarrow> distinct (column_names df)"
  unfolding impute_missing_def
  by (rule distinct_if_counts_one) (rule impute_loop_Inr_single)

lemma count_one_if_distinct: "distinct xs \<Longrightarrow> n \<in> set xs \<Longrightarrow> count_list xs n = 1"
  by (induction xs) (auto simp: count_list_0_iff)

lemma first_repeated_None: "(first_repeated ns = None) = distinct ns"
proof
  assume "first_repeated ns = None"
  then have le: "\<And>n. n \<in> set ns \<Longrightarrow> \<not> 1 < count_list ns n"
    by (auto simp: first_repeated_def find_None_iff)
  show "distinct ns"
  proof (rule distinct_if_counts_one)
    fix n assume n: "n \<in> set ns"
    then have "count_list ns n \<noteq> 0" by (simp add: count_list_0_iff)
    with le [OF n] show "count_list ns n = 1" by simp
  qed
next
  assume "distinct ns"
  then show "first_repeated ns = None"
    by (auto simp: first_repeated_def find_None_iff dest: count_one_if_distinct)
qed

lemma impute_loop_outcome:
  "set cols \<subseteq> set (column_names df) \<Longrightarrow>
     (case find (\<lambda>n. 1 < count_list (column_names df) n) cols of
        None \<Rightarrow> \<exists>d. impute_loop cols df = Inr d
      | Some n \<Rightarrow> impute_loop cols df = Inl (if n = ''dtype'' then ValueError else AttributeError))"
proof (induction cols arbitrary: df)
  case Nil
  then show ?case by simp
next
  case (Cons col cols)
  have mem: "col \<in> set (column_names df)" using Cons.prems by simp
  then have pos: "count_list (column_names df) col \<noteq> 0" by (simp add: count_list_0_iff)
  show ?case
  proof (cases "1 < count_list (column_names df) col")
    case True
    then have "1 < length (getitem df col)" by (simp add: getitem_length)
    then obtain v w ws where "getitem df col = v # w # ws"
      by (cases "getitem df col"; cases "tl (getitem df col)") auto
    then show ?thesis using True by simp
  next
    case False
    with pos have "length (getitem df col) = 1" by (simp add: getitem_length)
    then obtain v where g: "getitem df col = [v]"
      by (cases "getitem df col") auto
    let ?df = "setitem df col (impute_column v)"
    have names: "column_names ?df = column_names df" using mem by (rule column_names_setitem)
    have sub: "set cols \<subseteq> set (column_names ?df)" using Cons.prems names by simp
    have step: "impute_loop (col # cols) df = impute_loop cols ?df" using g by simp
    have skip: "find (\<lambda>n. 1 < count_list (column_names df) n) (col # cols)
                 = find (\<lambda>n. 1 < count_list (column_names df) n) cols"
      using False by simp
    show ?thesis
      unfolding step skip using Cons.IH [OF sub] by (simp only: names)
  qed
qed

lemma impute_missing_outcome:
  "case first_repeated (column_names df) of
     None \<Rightarrow> \<exists>d. impute_missing df = Inr d
   | Some n \<Rightarrow> impute_missing df = Inl (if n = ''dtype'' then ValueError else AttributeError)"
  unfolding impute_missing_def first_repeated_def by (rule impute_loop_outcome) simp

section \<open>Duplicate removal keeps the labels\<close>

lemma column_names_drop_duplicates: "column_names (drop_duplicates df) = column_names df"
  by (simp add: drop_duplicates_def column_names_def Let_def case_prod_unfold comp_def)

lemma clean_data_names:
  "column_names (drop_duplicates (rename_columns regex df))
     = map (normalize_name regex) (column_names df)"
  by (simp add: column_names_drop_duplicates rename_columns_names)

lemma clean_data_distinct:
  assumes "distinct (map (normalize_name regex) (column_names df))"
  shows "clean_data regex df
     = Inr ((drop_duplicates (rename_columns regex df))
             \<lparr>columns := map (apsnd impute_column)
                            (columns (drop_duplicates (rename_columns regex df)))\<rparr>)"
  using assms by (simp add: clean_data_def Let_def impute_missing_distinct clean_data_names)

section \<open>The order of the cleaning steps\<close>

text \<open>
  C1, as stated, fails: \<^verbatim>\<open>clean_data\<close> removes duplicate rows (line 42) before it
  fills missing entries (lines 44 to 55).  On the column \<open>[1, 1, 5, NaN]\<close> the code
  drops the second row and fills with 3, the median of \<open>[1, 5]\<close>; in the order of the
  claim the fill value is 1, the median of \<open>[1, 1, 5]\<close>, and the filled row is then
  dropped as a duplicate.  The label \<open>A\<close> is its own canonical name under both
  readings of line 39.
\<close>

theorem C1_duplicates_removed_before_imputation:
  "clean_data True repeated_row_frame
     = Inr \<lparr>index = [0, 2, 3], columns = [(''A'', Numeric [Some 1, Some 5, Some 3])]\<rparr>
   \<and> spec_clean_data True repeated_row_frame
     = Inr \<lparr>index = [0, 2], columns = [(''A'', Numeric [Some 1, Some 5])]\<rparr>
   \<and> clean_data False repeated_row_frame
     = Inr \<lparr>index = [0, 2, 3], columns = [(''A'', Numeric [Some 1, Some 5, Some 3])]\<rparr>
   \<and> spec_clean_data False repeated_row_frame
     = Inr \<lparr>index = [0, 2], columns = [(''A'', Numeric [Some 1, Some 5])]\<rparr>"
  by code_simp

text \<open>
  C1, amended: the cleaning stage applies its three steps in the order schema
  normalisation, duplicate removal, imputation.  Whenever the normalised labels are
  distinct, the cleaned frame is the renamed and de-duplicated frame with each column
  filled from its own statistic, so the median or mode used for a column is computed
  over the rows that remain after duplicate rows are removed.  This holds under both
  readings of line 39.
\<close>

theorem C1_normalise_deduplicate_impute:
  "distinct (map (normalize_name regex) (column_names df)) \<Longrightarrow>
     clean_data regex df
       = Inr ((drop_duplicates (rename_columns regex df))
               \<lparr>columns := map (apsnd impute_column)
                              (columns (drop_duplicates (rename_columns regex df)))\<rparr>)"
  by (rule clean_data_distinct)

theorem C1_normalise_deduplicate_impute_witness:
  "distinct (map (normalize_name True) (column_names test_cleaning_frame))
   \<and> clean_data True test_cleaning_frame
     = Inr \<lparr>index = [0, 1, 3, 4, 5],
            columns =
              [(''Name'', Categorical [Some ''John'', Some ''Jane'', Some ''Mike'', Some ''Sarah'',
                                       Some ''Jane'']),
               (''Age'', Numeric [Some 25, Some 30, Some 35, Some 28, Some 29]),
               (''Salary'', Numeric [Some 50000, Some 60000, Some 70000, Some 55000, Some 65000]),
               (''Department'', Categorical [Some ''IT'', Some ''HR'', Some ''Sales'', Some ''IT'',
                                             Some ''Marketing''])]\<rparr>
   \<and> distinct (map (normalize_name False) (column_names test_cleaning_frame))
   \<and> clean_data False test_cleaning_frame
     = Inr \<lparr>index = [0, 1, 3, 4, 5],
            columns =
              [(''Name'', Categorical [Some ''John'', Some ''Jane'', Some ''Mike'', Some ''Sarah'',
                                       Some ''Jane'']),
               (''Age'', Numeric [Some 25, Some 30, Some 35, Some 28, Some 29]),
               (''Salary'', Numeric [Some 50000, Some 60000, Some 70000, Some 55000, Some 65000]),
               (''Department'', Categorical [Some ''IT'', Some ''HR'', Some ''Sales'', Some ''IT'',
                                             Some ''Marketing''])]\<rparr>"
proof -
  have d: "distinct (map (normalize_name regex) (column_names test_cleaning_frame))" for regex
    by (cases regex) (simp_all only:, code_simp+)
  have v: "(drop_duplicates (rename_columns regex test_cleaning_frame))
               \<lparr>columns := map (apsnd impute_column)
                              (columns (drop_duplicates (rename_columns regex test_cleaning_frame)))\<rparr>
     = \<lparr>index = [0, 1, 3, 4, 5],
            columns =
              [(''Name'', Categorical [Some ''John'', Some ''Jane'', Some ''Mike'', Some ''Sarah'',
                                       Some ''Jane'']),
               (''Age'', Numeric [Some 25, Some 30, Some 35, Some 28, Some 29]),
               (''Salary'', Numeric [Some 50000, Some 60000, Some 70000, Some 55000, Some 65000]),
               (''Department'', Categorical [Some ''IT'', Some ''HR'', Some ''Sales'', Some ''IT'',
                                             Some ''Marketing''])]\<rparr>" for regex
    by (cases regex) (simp_all only:, code_simp+)
  from C1_normalise_deduplicate_impute [OF d [of True]]
    C1_normalise_deduplicate_impute [OF d [of False]] d v show ?thesis
    by (simp only:)
qed

section \<open>Colliding labels\<close>

lemma clean_data_Inr_iff:
  "(\<exists>d. clean_data regex df = Inr d) = distinct (map (normalize_name regex) (column_names df))"
proof
  assume "\<exists>d. clean_data regex df = Inr d"
  then obtain d where "impute_missing (drop_duplicates (rename_columns regex df)) = Inr d"
    by (auto simp: clean_data_def Let_def)
  then have "distinct (column_names (drop_duplicates (rename_columns regex df)))"
    by (rule impute_missing_Inr_distinct)
  then show "distinct (map (normalize_name regex) (column_names df))"
    by (simp add: clean_data_names)
next
  assume "distinct (map (normalize_name regex) (column_names df))"
  then show "\<exists>d. clean_data regex df = Inr d"
    by (simp add: clean_data_distinct)
qed

lemma clean_data_first_repeated:
  assumes "first_repeated (map (normalize_name regex) (column_names df)) = Some n"
  shows "clean_data regex df = Inl (if n = ''dtype'' then ValueError else AttributeError)"
  using impute_missing_outcome [of "drop_duplicates (rename_columns regex df)"] assms
  by (simp add: clean_data_def Let_def clean_data_names)

text \<open>
  C5, as stated, fails: nothing in \<^verbatim>\<open>clean_data\<close> raises a SchemaError.  The labels
  \<open>a b\<close> and \<open>a_b\<close> are distinct and both become \<open>a_b\<close>, under both readings of
  line 39; the renaming succeeds and keeps both columns under that label, and the
  imputation loop then stops at line 46 with an AttributeError.
\<close>

theorem C5_collision_is_attribute_error:
  "column_names (rename_columns True colliding_labels_frame) = [''a_b'', ''a_b'']
   \<and> map snd (columns (rename_columns True colliding_labels_frame))
       = [Numeric [Some 1, Some 2], Numeric [Some 3, Some 4]]
   \<and> clean_data True colliding_labels_frame = Inl AttributeError
   \<and> clean_data True colliding_labels_frame \<noteq> Inl SchemaError
   \<and> column_names (rename_columns False colliding_labels_frame) = [''a_b'', ''a_b'']
   \<and> map snd (columns (rename_columns False colliding_labels_frame))
       = [Numeric [Some 1, Some 2], Numeric [Some 3, Some 4]]
   \<and> clean_data False colliding_labels_frame = Inl AttributeError
   \<and> clean_data False colliding_labels_frame \<noteq> Inl SchemaError"
  by code_simp

text \<open>
  C5, amended: the renaming step never fails and never merges columns: it keeps every
  column, two columns under one label when line 39 gives them the same name.
  \<^verbatim>\<open>clean_data\<close> as a whole returns a frame exactly when the names that line 39
  gives the columns are pairwise distinct.  Otherwise it fails in the imputation loop,
  at the first label in column order that occurs more than once: with a Python
  ValueError when that label is \<open>dtype\<close>, with an AttributeError for every other
  label, and never with a SchemaError.
\<close>

theorem C5_clean_data_fails_iff_labels_collide:
  "((\<exists>d. clean_data regex df = Inr d)
      = distinct (map (normalize_name regex) (column_names df)))
   \<and> ((first_repeated (map (normalize_name regex) (column_names df)) = None)
      = distinct (map (normalize_name regex) (column_names df)))
   \<and> (\<forall>n. first_repeated (map (normalize_name regex) (column_names df)) = Some n
          \<longrightarrow> clean_data regex df
                = Inl (if n = ''dtype'' then ValueError else AttributeError))
   \<and> clean_data regex df \<noteq> Inl SchemaError
   \<and> length (columns (rename_columns regex df)) = length (columns df)
   \<and> map snd (columns (rename_columns regex df)) = map snd (columns df)"
proof -
  let ?ns = "map (normalize_name regex) (column_names df)"
  have a: "(\<exists>d. clean_data regex df = Inr d) = distinct ?ns"
    by (rule clean_data_Inr_iff)
  have b: "(first_repeated ?ns = None) = distinct ?ns"
    by (rule first_repeated_None)
  have c: "\<forall>n. first_repeated ?ns = Some n
          \<longrightarrow> clean_data regex df = Inl (if n = ''dtype'' then ValueError else AttributeError)"
    by (auto dest: clean_data_first_repeated)
  have d: "clean_data regex df \<noteq> Inl SchemaError"
  proof (cases "first_repeated ?ns")
    case None
    with a b obtain r where "clean_data regex df = Inr r" by auto
    then show ?thesis by simp
  next
    case (Some n)
    with c show ?thesis by auto
  qed
  have e: "length (columns (rename_columns regex df)) = length (columns df)"
    by (simp add: rename_columns_def)
  show ?thesis
    using a b c d e rename_columns_data by blast
qed

theorem C5_clean_data_fails_iff_labels_collide_witness:
  "first_repeated (map (normalize_name True) (column_names colliding_labels_frame)) = Some ''a_b''
   \<and> clean_data True colliding_labels_frame = Inl AttributeError
   \<and> first_repeated (map (normalize_name False) (column_names dtype_labels_frame)) = Some ''dtype''
   \<and> clean_data False dtype_labels_frame = Inl ValueError
   \<and> first_repeated (map (normalize_name True) (column_names dollar_labels_frame)) = Some ''a''
   \<and> clean_data True dollar_labels_frame = Inl AttributeError
   \<and> distinct (map (normalize_name False) (column_names dollar_labels_frame))
   \<and> clean_data False dollar_labels_frame
       = Inr \<lparr>index = [0], columns = [(''a$'', Numeric [Some 1]), (''a'', Numeric [Some 2])]\<rparr>"
proof -
  have f1: "first_repeated (map (normalize_name True) (column_names colliding_labels_frame))
              = Some ''a_b''"
    by code_simp
  have f2: "first_repeated (map (normalize_name False) (column_names dtype_labels_frame))
              = Some ''dtype''"
    by code_simp
  have f3: "first_repeated (map (normalize_name True) (column_names dollar_labels_frame))
              = Some ''a''"
    by code_simp
  have d4: "distinct (map (normalize_name False) (column_names dollar_labels_frame))"
    by code_simp
  have e1: "clean_data True colliding_labels_frame = Inl AttributeError"
    using C5_clean_data_fails_iff_labels_collide [of True colliding_labels_frame] f1 by simp
  have e2: "clean_data False dtype_labels_frame = Inl ValueError"
    using C5_clean_data_fails_iff_labels_collide [of False dtype_labels_frame] f2 by simp
  have e3: "clean_data True dollar_labels_frame = Inl AttributeError"
    using C5_clean_data_fails_iff_labels_collide [of True dollar_labels_frame] f3 by simp
  have "\<exists>d. clean_data False dollar_labels_frame = Inr d"
    using C5_clean_data_fails_iff_labels_collide [of False dollar_labels_frame] d4 by blast
  moreover have "clean_data False dollar_labels_frame = Inl e' \<or> clean_data False dollar_labels_frame
       = Inr \<lparr>index = [0], columns = [(''a$'', Numeric [Some 1]), (''a'', Numeric [Some 2])]\<rparr>"
    for e'
    by code_simp
  ultimately have e4: "clean_data False dollar_labels_frame
       = Inr \<lparr>index = [0], columns = [(''a$'', Numeric [Some 1]), (''a'', Numeric [Some 2])]\<rparr>"
    by auto
  show ?thesis
    using f1 f2 f3 d4 e1 e2 e3 e4 by (simp only:)
qed

section \<open>What imputation writes\<close>

lemma fillna_map: "fillna xs m = map (\<lambda>x. case x of None \<Rightarrow> Some m | Some v \<Rightarrow> Some v) xs"
  by (induction xs m rule: fillna.induct) simp_all

lemma fillna_no_None: "None \<notin> set (fillna xs m)"
  by (induction xs m rule: fillna.induct) simp_all

lemma fillna_id: "None \<notin> set xs \<Longrightarrow> fillna xs m = xs"
  by (induction xs m rule: fillna.induct) simp_all

lemma dropna_Nil_iff: "(dropna xs = []) = (set xs \<subseteq> {None})"
  by (induction xs rule: dropna.induct) auto

lemma median_None_iff: "(median ys = None) = (ys = [])"
proof (cases "ys = []")
  case True
  then show ?thesis by (simp add: median_def)
next
  case False
  then show ?thesis
    by (cases "odd (length ys)") (simp_all add: median_def Let_def)
qed

lemma count_list_dropna: "count_list (dropna xs) y = count_list xs (Some y)"
  by (induction xs rule: dropna.induct) simp_all

lemma fold_max_Max: "fold max ns (a::nat) = Max (insert a (set ns))"
  using Max.set_eq_fold [of a ns] by simp

lemma mode_Nil_iff: "(mode ys = []) = (ys = [])"
proof
  assume e: "mode ys = []"
  show "ys = []"
  proof (rule ccontr)
    assume ne: "ys \<noteq> []"
    define top where "top = fold max (map (count_list ys) ys) 0"
    have top: "top = Max (insert 0 (count_list ys ` set ys))"
      by (simp add: top_def fold_max_Max)
    have "top \<in> insert 0 (count_list ys ` set ys)"
      unfolding top by (rule Max_in) simp_all
    moreover have "top \<noteq> 0"
    proof -
      obtain y where y: "y \<in> set ys" using ne by (cases ys) auto
      then have "count_list ys y \<le> top" unfolding top by (intro Max_ge) simp_all
      moreover have "count_list ys y \<noteq> 0" using y by (simp add: count_list_0_iff)
      ultimately show ?thesis by simp
    qed
    ultimately obtain z where "z \<in> set ys" "count_list ys z = top" by auto
    then have "z \<in> set (mode ys)" by (simp add: mode_def top_def Let_def)
    with e show False by simp
  qed
next
  assume "ys = []"
  then show "mode ys = []" by (simp add: mode_def)
qed

lemma mode_first:
  assumes "mode ys = m # ms"
  shows "m \<in> set ys"
    and "count_list ys y \<le> count_list ys m"
    and "count_list ys y = count_list ys m \<Longrightarrow> m \<le> y"
proof -
  define top where "top = fold max (map (count_list ys) ys) 0"
  define L where "L = filter (\<lambda>x. count_list ys x = top) ys"
  have top: "top = Max (insert 0 (count_list ys ` set ys))"
    by (simp add: top_def fold_max_Max)
  have m: "sort (remdups L) = m # ms"
    using assms by (simp add: mode_def top_def L_def Let_def)
  have "m \<in> set (sort (remdups L))" unfolding m by simp
  then have mL: "m \<in> set L" by simp
  then have mem: "m \<in> set ys" and cm: "count_list ys m = top" by (simp_all add: L_def)
  show "m \<in> set ys" by (rule mem)
  have pos: "0 < top" using mem cm count_list_0_iff [of ys m] by auto
  show "count_list ys y \<le> count_list ys m"
  proof (cases "y \<in> set ys")
    case True
    then have "count_list ys y \<le> top" unfolding top by (intro Max_ge) simp_all
    then show ?thesis by (simp add: cm)
  next
    case False
    then show ?thesis by (simp add: count_list_0_iff [THEN iffD2])
  qed
  have sorted: "sorted (m # ms)" using sorted_sort [of "remdups L"] by (simp only: m)
  show "m \<le> y" if "count_list ys y = count_list ys m"
  proof -
    have "count_list ys y \<noteq> 0" using that cm pos by simp
    then have "y \<in> set ys" by (simp add: count_list_0_iff)
    then have "y \<in> set L" using that cm by (simp add: L_def)
    then have "y \<in> set (m # ms)" using m [symmetric] by simp
    then show ?thesis using sorted by auto
  qed
qed

lemma no_None_filter: "(filter (\<lambda>x. x = None) xs = []) = (None \<notin> set xs)"
  by (induction xs) auto

section \<open>The median by counting\<close>

lemma length_filter_sort: "length (filter P (sort ys)) = length (filter P ys)"
  by (simp add: filter_sort)

lemma sorted_order_statistic:
  fixes s :: "real list"
  assumes "sorted s" "k < length s"
  shows "length (filter (\<lambda>y. y < s ! k) s) \<le> k"
    and "k < length (filter (\<lambda>y. y \<le> s ! k) s)"
proof -
  have "\<forall>y \<in> set (drop k s). \<not> y < s ! k"
  proof
    fix y assume "y \<in> set (drop k s)"
    then obtain i where "i < length (drop k s)" "y = drop k s ! i"
      by (auto simp: in_set_conv_nth)
    then have "y = s ! (k + i)" "k + i < length s" by simp_all
    then have "s ! k \<le> y" using assms(1) by (simp add: sorted_nth_mono)
    then show "\<not> y < s ! k" by simp
  qed
  then have "filter (\<lambda>y. y < s ! k) (drop k s) = []" by (simp add: filter_empty_conv)
  then have "filter (\<lambda>y. y < s ! k) s = filter (\<lambda>y. y < s ! k) (take k s)"
    using filter_append [of "\<lambda>y. y < s ! k" "take k s" "drop k s"] by simp
  then have "length (filter (\<lambda>y. y < s ! k) s) \<le> length (take k s)"
    by (simp only: length_filter_le)
  then show "length (filter (\<lambda>y. y < s ! k) s) \<le> k" by simp
  have "\<forall>y \<in> set (take (Suc k) s). y \<le> s ! k"
  proof
    fix y assume "y \<in> set (take (Suc k) s)"
    then obtain i where "i < length (take (Suc k) s)" "y = take (Suc k) s ! i"
      by (auto simp: in_set_conv_nth)
    then have "y = s ! i" "i \<le> k" by simp_all
    then show "y \<le> s ! k" using assms by (simp add: sorted_nth_mono)
  qed
  then have "filter (\<lambda>y. y \<le> s ! k) (take (Suc k) s) = take (Suc k) s" by simp
  moreover have "filter (\<lambda>y. y \<le> s ! k) s
      = filter (\<lambda>y. y \<le> s ! k) (take (Suc k) s) @ filter (\<lambda>y. y \<le> s ! k) (drop (Suc k) s)"
    using filter_append [of "\<lambda>y. y \<le> s ! k" "take (Suc k) s" "drop (Suc k) s"] by simp
  ultimately have "length (take (Suc k) s) \<le> length (filter (\<lambda>y. y \<le> s ! k) s)"
    by simp
  then show "k < length (filter (\<lambda>y. y \<le> s ! k) s)" using assms(2) by simp
qed

lemma order_statistic_sort:
  assumes "k < length ys"
  shows "order_statistic ys k (sort ys ! k)"
proof -
  have k: "k < length (sort ys)" using assms by simp
  have "sort ys ! k \<in> set (sort ys)" using k by (rule nth_mem)
  then have "sort ys ! k \<in> set ys" by simp
  moreover have "length (filter (\<lambda>y. y < sort ys ! k) ys) \<le> k"
    using sorted_order_statistic(1) [OF sorted_sort k] by (simp only: length_filter_sort)
  moreover have "k < length (filter (\<lambda>y. y \<le> sort ys ! k) ys)"
    using sorted_order_statistic(2) [OF sorted_sort k] by (simp only: length_filter_sort)
  ultimately show ?thesis by (simp add: order_statistic_def)
qed

lemma length_filter_mono:
  "(\<And>y. P y \<Longrightarrow> Q y) \<Longrightarrow> length (filter P ys) \<le> length (filter Q ys)"
  by (induction ys) auto

lemma order_statistic_unique:
  assumes "order_statistic ys k v" "order_statistic ys k w"
  shows "v = w"
proof -
  have no: "\<not> a < b" if "order_statistic ys k a" "order_statistic ys k b" for a b
  proof
    assume "a < b"
    then have "length (filter (\<lambda>y. y \<le> a) ys) \<le> length (filter (\<lambda>y. y < b) ys)"
      by (intro length_filter_mono) simp
    with that show False by (simp add: order_statistic_def)
  qed
  from no [OF assms] no [OF assms(2) assms(1)] show ?thesis by simp
qed

lemma spec_median_unique: "spec_median ys m \<Longrightarrow> spec_median ys m' \<Longrightarrow> m' = m"
  unfolding spec_median_def by (metis order_statistic_unique)

lemma median_spec:
  assumes "median ys = Some m"
  shows "spec_median ys m"
proof -
  have ne: "ys \<noteq> []" using assms by (auto simp: median_def)
  define n where "n = length ys"
  have n: "0 < n" using ne by (simp add: n_def)
  define a where "a = sort ys ! ((n - 1) div 2)"
  define b where "b = sort ys ! (n div 2)"
  have "(n - 1) div 2 < n" "n div 2 < n" using n by arith+
  then have ia: "(n - 1) div 2 < length ys" and ib: "n div 2 < length ys"
    by (simp_all only: n_def)
  have oa: "order_statistic ys ((n - 1) div 2) a"
    unfolding a_def using ia by (rule order_statistic_sort)
  have ob: "order_statistic ys (n div 2) b"
    unfolding b_def using ib by (rule order_statistic_sort)
  have m: "m = (a + b) / 2"
  proof (cases "odd n")
    case True
    then have "(n - 1) div 2 = n div 2" by (auto elim: oddE)
    then have "a = b" by (simp add: a_def b_def)
    moreover have "m = b" using assms True ne by (simp add: median_def Let_def n_def b_def)
    ultimately show ?thesis by simp
  next
    case False
    then have "(n - 1) div 2 = n div 2 - 1" using n by (auto elim!: evenE)
    moreover have "m = (sort ys ! (n div 2 - 1) + sort ys ! (n div 2)) / 2"
      using assms False ne by (simp add: median_def Let_def n_def)
    ultimately show ?thesis by (simp add: a_def b_def)
  qed
  have "a \<in> set ys" "b \<in> set ys" using oa ob by (simp_all add: order_statistic_def)
  then show ?thesis
    using oa ob m unfolding spec_median_def n_def by blast
qed

text \<open>
  C4: for every frame with distinct column labels, the imputation loop returns a frame
  with the same row labels and the same column labels, in which
  \<^item> a numeric column with a non-missing entry has each missing entry replaced by the
    median of its non-missing entries (the mean of the two middle entries in ascending
    order; there is exactly one such value), and no missing entry is left;
  \<^item> a numeric column without a non-missing entry is returned as it is;
  \<^item> a categorical column has no missing entry left: when it is entirely missing every
    entry is \<open>Unknown\<close>, and otherwise each missing entry is replaced by a most
    frequent non-missing value of the column (the least one, when several are equally
    frequent).
\<close>

theorem C4_imputation:
  "distinct (column_names df) \<Longrightarrow>
     \<exists>d. impute_missing df = Inr d \<and> index d = index df
       \<and> column_names d = column_names df
       \<and> (\<forall>i < length (columns df).
            case snd (columns df ! i) of
              Numeric xs \<Rightarrow>
                (if set xs \<subseteq> {None} then snd (columns d ! i) = Numeric xs
                 else \<exists>m. spec_median (dropna xs) m
                        \<and> (\<forall>m'. spec_median (dropna xs) m' \<longrightarrow> m' = m)
                        \<and> snd (columns d ! i)
                            = Numeric (map (\<lambda>x. case x of None \<Rightarrow> Some m
                                                 | Some v \<Rightarrow> Some v) xs)
                        \<and> missing_count (snd (columns d ! i)) = 0)
            | Categorical xs \<Rightarrow>
                missing_count (snd (columns d ! i)) = 0
                \<and> (if set xs \<subseteq> {None}
                    then snd (columns d ! i) = Categorical (map (\<lambda>x. Some ''Unknown'') xs)
                    else \<exists>m. Some m \<in> set xs
                           \<and> (\<forall>y. count_list xs (Some y) \<le> count_list xs (Some m))
                           \<and> (\<forall>y. count_list xs (Some y) = count_list xs (Some m) \<longrightarrow> m \<le> y)
                           \<and> snd (columns d ! i)
                               = Categorical (map (\<lambda>x. case x of None \<Rightarrow> Some m
                                                       | Some v \<Rightarrow> Some v) xs)))"
proof -
  assume dist: "distinct (column_names df)"
  define d where "d = df\<lparr>columns := map (apsnd impute_column) (columns df)\<rparr>"
  have r: "impute_missing df = Inr d"
    using dist by (simp add: impute_missing_distinct d_def)
  have n: "column_names d = column_names df"
    by (simp add: d_def column_names_def comp_def)
  have col: "snd (columns d ! i) = impute_column (snd (columns df ! i))"
    if "i < length (columns df)" for i
    using that by (simp add: d_def)
  have num: "if set xs \<subseteq> {None} then impute_column (Numeric xs) = Numeric xs
             else \<exists>m. spec_median (dropna xs) m
                    \<and> (\<forall>m'. spec_median (dropna xs) m' \<longrightarrow> m' = m)
                    \<and> impute_column (Numeric xs)
                        = Numeric (map (\<lambda>x. case x of None \<Rightarrow> Some m | Some v \<Rightarrow> Some v) xs)
                    \<and> missing_count (impute_column (Numeric xs)) = 0" for xs
  proof (cases "median (dropna xs)")
    case None
    then have "dropna xs = []" by (simp add: median_None_iff)
    then have "set xs \<subseteq> {None}" by (simp add: dropna_Nil_iff)
    with None show ?thesis by simp
  next
    case (Some m)
    then have "dropna xs \<noteq> []" using median_None_iff [of "dropna xs"] by auto
    then have notall: "\<not> set xs \<subseteq> {None}" by (simp add: dropna_Nil_iff)
    have sm: "spec_median (dropna xs) m" using Some by (rule median_spec)
    have un: "\<forall>m'. spec_median (dropna xs) m' \<longrightarrow> m' = m"
      using sm by (auto dest: spec_median_unique)
    have ic: "impute_column (Numeric xs)
                 = Numeric (map (\<lambda>x. case x of None \<Rightarrow> Some m | Some v \<Rightarrow> Some v) xs)"
      using Some by (simp add: fillna_map)
    have "missing_count (Numeric (fillna xs m)) = 0"
      by (simp add: no_None_filter fillna_no_None)
    then have mc: "missing_count (impute_column (Numeric xs)) = 0"
      using Some by simp
    show ?thesis
      by (simp only: notall if_False) (intro exI [of _ m] conjI sm un ic mc)
  qed
  have cat: "missing_count (impute_column (Categorical xs)) = 0
      \<and> (if set xs \<subseteq> {None}
          then impute_column (Categorical xs) = Categorical (map (\<lambda>x. Some ''Unknown'') xs)
          else \<exists>m. Some m \<in> set xs
                 \<and> (\<forall>y. count_list xs (Some y) \<le> count_list xs (Some m))
                 \<and> (\<forall>y. count_list xs (Some y) = count_list xs (Some m) \<longrightarrow> m \<le> y)
                 \<and> impute_column (Categorical xs)
                     = Categorical (map (\<lambda>x. case x of None \<Rightarrow> Some m | Some v \<Rightarrow> Some v) xs))"
    for xs
  proof (cases "mode (dropna xs)")
    case Nil
    then have e: "dropna xs = []" by (simp add: mode_Nil_iff)
    then have all: "set xs \<subseteq> {None}" by (simp add: dropna_Nil_iff)
    then have "map (\<lambda>x. case x of None \<Rightarrow> Some ''Unknown'' | Some v \<Rightarrow> Some v) xs
                 = map (\<lambda>x. Some ''Unknown'') xs"
      by (intro map_cong) (auto split: option.splits)
    with Nil all show ?thesis
      by (simp add: fillna_map no_None_filter)
  next
    case (Cons m ms)
    then have "dropna xs \<noteq> []" using mode_Nil_iff [of "dropna xs"] by auto
    then have notall: "\<not> set xs \<subseteq> {None}" by (simp add: dropna_Nil_iff)
    have "m \<in> set (dropna xs)" using Cons by (rule mode_first(1))
    then have mem: "Some m \<in> set xs" by (simp add: set_dropna)
    have le: "\<forall>y. count_list xs (Some y) \<le> count_list xs (Some m)"
      using mode_first(2) [OF Cons] by (simp add: count_list_dropna)
    have least: "\<forall>y. count_list xs (Some y) = count_list xs (Some m) \<longrightarrow> m \<le> y"
      using mode_first(3) [OF Cons] by (simp add: count_list_dropna)
    have "impute_column (Categorical xs)
            = Categorical (map (\<lambda>x. case x of None \<Rightarrow> Some m | Some v \<Rightarrow> Some v) xs)"
      using Cons by (simp add: fillna_map)
    moreover have "missing_count (impute_column (Categorical xs)) = 0"
      using Cons by (simp add: no_None_filter fillna_no_None)
    ultimately show ?thesis
      using notall mem le least by (simp only: if_False) blast
  qed
  have "\<forall>i < length (columns df).
            case snd (columns df ! i) of
              Numeric xs \<Rightarrow>
                (if set xs \<subseteq> {None} then snd (columns d ! i) = Numeric xs
                 else \<exists>m. spec_median (dropna xs) m
                        \<and> (\<forall>m'. spec_median (dropna xs) m' \<longrightarrow> m' = m)
                        \<and> snd (columns d ! i)
                            = Numeric (map (\<lambda>x. case x of None \<Rightarrow> Some m
                                                 | Some v \<Rightarrow> Some v) xs)
                        \<and> missing_count (snd (columns d ! i)) = 0)
            | Categorical xs \<Rightarrow>
                missing_count (snd (columns d ! i)) = 0
                \<and> (if set xs \<subseteq> {None}
                    then snd (columns d ! i) = Categorical (map (\<lambda>x. Some ''Unknown'') xs)
                    else \<exists>m. Some m \<in> set xs
                           \<and> (\<forall>y. count_list xs (Some y) \<le> count_list xs (Some m))
                           \<and> (\<forall>y. count_list xs (Some y) = count_list xs (Some m) \<longrightarrow> m \<le> y)
                           \<and> snd (columns d ! i)
                               = Categorical (map (\<lambda>x. case x of None \<Rightarrow> Some m
                                                       | Some v \<Rightarrow> Some v) xs))"
  proof (intro allI impI)
    fix i assume i: "i < length (columns df)"
    show "case snd (columns df ! i) of
              Numeric xs \<Rightarrow>
                (if set xs \<subseteq> {None} then snd (columns d ! i) = Numeric xs
                 else \<exists>m. spec_median (dropna xs) m
                        \<and> (\<forall>m'. spec_median (dropna xs) m' \<longrightarrow> m' = m)
                        \<and> snd (columns d ! i)
                            = Numeric (map (\<lambda>x. case x of None \<Rightarrow> Some m
                                                 | Some v \<Rightarrow> Some v) xs)
                        \<and> missing_count (snd (columns d ! i)) = 0)
            | Categorical xs \<Rightarrow>
                missing_count (snd (columns d ! i)) = 0
                \<and> (if set xs \<subseteq> {None}
                    then snd (columns d ! i) = Categorical (map (\<lambda>x. Some ''Unknown'') xs)
                    else \<exists>m. Some m \<in> set xs
                           \<and> (\<forall>y. count_list xs (Some y) \<le> count_list xs (Some m))
                           \<and> (\<forall>y. count_list xs (Some y) = count_list xs (Some m) \<longrightarrow> m \<le> y)
                           \<and> snd (columns d ! i)
                               = Categorical (map (\<lambda>x. case x of None \<Rightarrow> Some m
                                                       | Some v \<Rightarrow> Some v) xs))"
    proof (cases "snd (columns df ! i)")
      case (Numeric xs)
      show ?thesis
        unfolding col [OF i] Numeric cells.case by (rule num)
    next
      case (Categorical xs)
      show ?thesis
        unfolding col [OF i] Categorical cells.case by (rule cat)
    qed
  qed
  with r n show ?thesis
    by (intro exI [of _ d]) (simp add: d_def)
qed

theorem C4_imputation_witness:
  "distinct (column_names mixed_missing_frame)
   \<and> spec_median [4, 1, 10, 2] 3
   \<and> impute_missing mixed_missing_frame
     = Inr \<lparr>index = [0, 1, 2, 3, 4],
            columns =
              [(''score'', Numeric [Some 4, Some 3, Some 1, Some 10, Some 2]),
               (''blank'', Numeric [None, None, None, None, None]),
               (''grade'', Categorical [Some ''b'', Some ''a'', Some ''a'', Some ''b'', Some ''a'']),
               (''note'', Categorical [Some ''Unknown'', Some ''Unknown'', Some ''Unknown'',
                                       Some ''Unknown'', Some ''Unknown''])]\<rparr>"
proof -
  have d: "distinct (column_names mixed_missing_frame)"
    by code_simp
  have m: "spec_median [4, 1, 10, 2] 3"
    by code_simp
  have v: "impute_missing mixed_missing_frame = Inl e \<or> impute_missing mixed_missing_frame
     = Inr \<lparr>index = [0, 1, 2, 3, 4],
            columns =
              [(''score'', Numeric [Some 4, Some 3, Some 1, Some 10, Some 2]),
               (''blank'', Numeric [None, None, None, None, None]),
               (''grade'', Categorical [Some ''b'', Some ''a'', Some ''a'', Some ''b'', Some ''a'']),
               (''note'', Categorical [Some ''Unknown'', Some ''Unknown'', Some ''Unknown'',
                                       Some ''Unknown'', Some ''Unknown''])]\<rparr>" for e
    by code_simp
  from C4_imputation [OF d] obtain r where r: "impute_missing mixed_missing_frame = Inr r"
    by blast
  from r v have "impute_missing mixed_missing_frame
     = Inr \<lparr>index = [0, 1, 2, 3, 4],
            columns =
              [(''score'', Numeric [Some 4, Some 3, Some 1, Some 10, Some 2]),
               (''blank'', Numeric [None, None, None, None, None]),
               (''grade'', Categorical [Some ''b'', Some ''a'', Some ''a'', Some ''b'', Some ''a'']),
               (''note'', Categorical [Some ''Unknown'', Some ''Unknown'', Some ''Unknown'',
                                       Some ''Unknown'', Some ''Unknown''])]\<rparr>"
    by auto
  with d m show ?thesis by (simp only:)
qed

section \<open>Cleaning a cleaned frame\<close>

lemma settled_impute_column: "settled (impute_column v)"
proof (cases v)
  case (Numeric xs)
  show ?thesis
  proof (cases "median (dropna xs)")
    case None
    then have "set xs \<subseteq> {None}" by (simp add: median_None_iff dropna_Nil_iff)
    with None Numeric show ?thesis by simp
  next
    case (Some m)
    with Numeric show ?thesis by (simp add: fillna_no_None)
  qed
next
  case (Categorical xs)
  then show ?thesis by (cases "mode (dropna xs)") (simp_all add: fillna_no_None)
qed

lemma impute_column_settled: "settled v \<Longrightarrow> impute_column v = v"
proof (cases v)
  case (Numeric xs)
  assume "settled v"
  then consider "None \<notin> set xs" | "set xs \<subseteq> {None}" using Numeric by auto
  then show ?thesis
  proof cases
    case 1
    then show ?thesis using Numeric by (simp add: fillna_id split: option.splits)
  next
    case 2
    then have "median (dropna xs) = None" by (simp add: median_None_iff dropna_Nil_iff)
    then show ?thesis using Numeric by simp
  qed
next
  case (Categorical xs)
  assume "settled v"
  then show ?thesis using Categorical by (simp add: fillna_id split: list.splits)
qed

lemma set_select: "set (select xs fl) \<subseteq> set xs"
  by (auto simp: select_def dest: set_zip_leftD)

lemma settled_select_cells:
  assumes "settled v"
  shows "settled (select_cells v fl)"
proof (cases v)
  case (Numeric xs)
  with assms set_select [of xs fl] show ?thesis by auto
next
  case (Categorical xs)
  with assms set_select [of xs fl] show ?thesis by auto
qed

lemma settled_drop_duplicates:
  assumes "\<forall>c \<in> set (columns df). settled (snd c)"
  shows "\<forall>c \<in> set (columns (drop_duplicates df)). settled (snd c)"
  using assms by (auto simp: drop_duplicates_def Let_def settled_select_cells)

lemma impute_all_settled:
  assumes "\<forall>c \<in> set cs. settled (snd c)"
  shows "map (apsnd impute_column) cs = cs"
  using assms by (intro map_idI) (auto simp: impute_column_settled)

lemma rename_columns_fixed:
  assumes "\<forall>c \<in> set (columns df). normalize_name regex (fst c) = fst c"
  shows "rename_columns regex df = df"
proof -
  have "map (\<lambda>(n, v). (normalize_name regex n, v)) (columns df) = columns df"
    using assms by (intro map_idI) auto
  then show ?thesis by (simp add: rename_columns_def)
qed

lemma clean_data_result:
  assumes "clean_data regex D = Inr C"
  shows "distinct (column_names C)"
    and "column_names C = map (normalize_name regex) (column_names D)"
    and "\<forall>c \<in> set (columns C). settled (snd c)"
    and "index C = index (drop_duplicates (rename_columns regex D))"
    and "map (cells_length \<circ> snd) (columns C)
           = map (cells_length \<circ> snd) (columns (drop_duplicates (rename_columns regex D)))"
proof -
  let ?X = "drop_duplicates (rename_columns regex D)"
  have d: "distinct (map (normalize_name regex) (column_names D))"
    using assms clean_data_Inr_iff [of regex D] by auto
  then have C: "C = ?X\<lparr>columns := map (apsnd impute_column) (columns ?X)\<rparr>"
    using assms by (simp add: clean_data_distinct)
  show names: "column_names C = map (normalize_name regex) (column_names D)"
    unfolding C using clean_data_names [of regex D] by (simp add: column_names_def comp_def)
  show "distinct (column_names C)" using d names by simp
  show "\<forall>c \<in> set (columns C). settled (snd c)"
    unfolding C by (auto simp: settled_impute_column)
  show "index C = index ?X" unfolding C by simp
  have "cells_length (impute_column v) = cells_length v" for v
    by (cases v) (auto simp: fillna_map split: option.splits list.splits)
  then show "map (cells_length \<circ> snd) (columns C) = map (cells_length \<circ> snd) (columns ?X)"
    unfolding C by (simp add: comp_def)
qed

lemma clean_data_again:
  assumes "clean_data regex D = Inr C"
    and "\<forall>n \<in> set (column_names D).
           normalize_name regex (normalize_name regex n) = normalize_name regex n"
  shows "clean_data regex C = Inr (drop_duplicates C)"
proof -
  note r = clean_data_result [OF assms(1)]
  have "\<forall>c \<in> set (columns C). normalize_name regex (fst c) = fst c"
  proof
    fix c assume "c \<in> set (columns C)"
    then have "fst c \<in> set (column_names C)" by (auto simp: column_names_def)
    then obtain n where "n \<in> set (column_names D)" "fst c = normalize_name regex n"
      unfolding r(2) by auto
    then show "normalize_name regex (fst c) = fst c" using assms(2) by simp
  qed
  then have rn: "rename_columns regex C = C" by (rule rename_columns_fixed)
  have "distinct (column_names (drop_duplicates C))"
    using r(1) by (simp add: column_names_drop_duplicates)
  then have "impute_missing (drop_duplicates C)
      = Inr ((drop_duplicates C)\<lparr>columns := map (apsnd impute_column) (columns (drop_duplicates C))\<rparr>)"
    by (rule impute_missing_distinct)
  moreover have "map (apsnd impute_column) (columns (drop_duplicates C)) = columns (drop_duplicates C)"
    using settled_drop_duplicates [OF r(3)] by (rule impute_all_settled)
  ultimately show ?thesis
    by (simp add: clean_data_def rn)
qed

lemma length_select: "length xs = length fl \<Longrightarrow> length (select xs fl) = length (filter id fl)"
proof (induction xs arbitrary: fl)
  case Nil
  then show ?case by (simp add: select_def)
next
  case (Cons x xs)
  then show ?case by (cases fl) (auto simp: select_def)
qed

lemma select_all: "length xs = n \<Longrightarrow> select xs (replicate n True) = xs"
proof (induction xs arbitrary: n)
  case Nil
  then show ?case by (simp add: select_def)
next
  case (Cons x xs)
  then show ?case by (cases n) (auto simp: select_def)
qed

lemma wf_rename_columns: "wf_frame df \<Longrightarrow> wf_frame (rename_columns regex df)"
  by (auto simp: wf_frame_def rename_columns_def list_all_iff)

lemma wf_drop_duplicates:
  assumes "wf_frame df"
  shows "wf_frame (drop_duplicates df)"
proof (cases "empty_frame df")
  case True
  with assms show ?thesis by (simp add: drop_duplicates_def)
next
  case False
  define keep where "keep = map Not (duplicated df)"
  have k: "length keep = length (index df)" by (simp add: keep_def duplicated_def)
  have "cells_length (select_cells v keep) = length (select (index df) keep)"
    if "cells_length v = length (index df)" for v
    using that k by (cases v) (simp_all add: length_select)
  then show ?thesis
    using assms False
    by (auto simp: wf_frame_def drop_duplicates_def Let_def list_all_iff keep_def [symmetric])
qed

lemma drop_duplicates_none:
  assumes "wf_frame C" "True \<notin> set (duplicated C)"
  shows "drop_duplicates C = C"
proof (cases "empty_frame C")
  case True
  then show ?thesis by (simp add: drop_duplicates_def)
next
  case False
  have l: "length (duplicated C) = length (index C)" by (simp add: duplicated_def)
  have "map Not (duplicated C) = replicate (length (index C)) True"
    using assms(2) l by (auto intro!: replicate_eqI)
  moreover have "select_cells v (replicate (length (index C)) True) = v"
    if "cells_length v = length (index C)" for v
    using that by (cases v) (simp_all add: select_all)
  then have "map (\<lambda>(n, v). (n, select_cells v (replicate (length (index C)) True))) (columns C)
               = columns C"
    using assms(1) by (intro map_idI) (auto simp: wf_frame_def list_all_iff)
  ultimately show ?thesis
    using False by (simp add: drop_duplicates_def Let_def select_all)
qed

lemma wf_clean_data:
  assumes "wf_frame D" "clean_data regex D = Inr C"
  shows "wf_frame C"
proof -
  note r = clean_data_result [OF assms(2)]
  let ?X = "drop_duplicates (rename_columns regex D)"
  have "wf_frame ?X" using assms(1) by (intro wf_drop_duplicates wf_rename_columns)
  then have "\<forall>n \<in> set (map (cells_length \<circ> snd) (columns ?X)). n = length (index ?X)"
    by (auto simp: wf_frame_def list_all_iff)
  then have "\<forall>n \<in> set (map (cells_length \<circ> snd) (columns C)). n = length (index C)"
    by (simp only: r(4) r(5))
  then show ?thesis by (auto simp: wf_frame_def list_all_iff)
qed

text \<open>
  C6, as stated, fails: imputation runs after duplicate removal and can make two rows
  equal.  The column \<open>[1, 3, 5, NaN]\<close> is cleaned to \<open>[1, 3, 5, 3]\<close>, the median 3
  filling the last row; cleaning that frame again removes the row as a duplicate of
  row 1.  The label \<open>A\<close> is its own canonical name under both readings of line 39.
\<close>

theorem C6_second_cleaning_drops_a_row:
  "clean_data True median_present_frame
     = Inr \<lparr>index = [0, 1, 2, 3], columns = [(''A'', Numeric [Some 1, Some 3, Some 5, Some 3])]\<rparr>
   \<and> clean_data True
        \<lparr>index = [0, 1, 2, 3], columns = [(''A'', Numeric [Some 1, Some 3, Some 5, Some 3])]\<rparr>
     = Inr \<lparr>index = [0, 1, 2], columns = [(''A'', Numeric [Some 1, Some 3, Some 5])]\<rparr>
   \<and> clean_data False median_present_frame
     = Inr \<lparr>index = [0, 1, 2, 3], columns = [(''A'', Numeric [Some 1, Some 3, Some 5, Some 3])]\<rparr>
   \<and> clean_data False
        \<lparr>index = [0, 1, 2, 3], columns = [(''A'', Numeric [Some 1, Some 3, Some 5, Some 3])]\<rparr>
     = Inr \<lparr>index = [0, 1, 2], columns = [(''A'', Numeric [Some 1, Some 3, Some 5])]\<rparr>"
  by code_simp

text \<open>
  C6, amended: for every dataset \<open>D\<close> on which cleaning succeeds, cleaning the result
  again removes its duplicate rows and changes nothing else:
  \<open>clean (clean D) = drop_duplicates (clean D)\<close>.  So \<open>clean (clean D) = clean D\<close>
  holds whenever \<open>clean D\<close> has no duplicate rows, that is, whenever imputation has not
  made a row equal to an earlier one.  Where the second pattern of line 39 is a regular
  expression this holds for every dataset; where it is a plain string, for every
  dataset whose normalised column names are left as they are by a second normalisation.
\<close>

theorem C6_clean_twice:
  "wf_frame D \<Longrightarrow> clean_data regex D = Inr C \<Longrightarrow>
   regex \<or> (\<forall>n \<in> set (column_names D).
              normalize_name False (normalize_name False n) = normalize_name False n) \<Longrightarrow>
     clean_data regex C = Inr (drop_duplicates C)
     \<and> (True \<notin> set (duplicated C) \<longrightarrow> clean_data regex C = Inr C)"
proof -
  assume wf: "wf_frame D" and c: "clean_data regex D = Inr C"
    and names: "regex \<or> (\<forall>n \<in> set (column_names D).
              normalize_name False (normalize_name False n) = normalize_name False n)"
  have "\<forall>n \<in> set (column_names D).
          normalize_name regex (normalize_name regex n) = normalize_name regex n"
  proof (cases regex)
    case True
    then show ?thesis by (simp add: normalize_name_idem)
  next
    case False
    with names show ?thesis by simp
  qed
  with c have a: "clean_data regex C = Inr (drop_duplicates C)" by (rule clean_data_again)
  have "wf_frame C" using wf c by (rule wf_clean_data)
  then have "True \<notin> set (duplicated C) \<longrightarrow> drop_duplicates C = C"
    by (auto intro: drop_duplicates_none)
  with a show ?thesis by simp
qed

theorem C6_clean_twice_witness:
  "wf_frame test_cleaning_frame
   \<and> list_all (\<lambda>n. normalize_name False (normalize_name False n) = normalize_name False n)
        (column_names test_cleaning_frame)
   \<and> True \<notin> set (duplicated
        \<lparr>index = [0, 1, 3, 4, 5],
         columns =
           [(''Name'', Categorical [Some ''John'', Some ''Jane'', Some ''Mike'', Some ''Sarah'',
                                    Some ''Jane'']),
            (''Age'', Numeric [Some 25, Some 30, Some 35, Some 28, Some 29]),
            (''Salary'', Numeric [Some 50000, Some 60000, Some 70000, Some 55000, Some 65000]),
            (''Department'', Categorical [Some ''IT'', Some ''HR'', Some ''Sales'', Some ''IT'',
                                          Some ''Marketing''])]\<rparr>)
   \<and> clean_data True
        \<lparr>index = [0, 1, 3, 4, 5],
         columns =
           [(''Name'', Categorical [Some ''John'', Some ''Jane'', Some ''Mike'', Some ''Sarah'',
                                    Some ''Jane'']),
            (''Age'', Numeric [Some 25, Some 30, Some 35, Some 28, Some 29]),
            (''Salary'', Numeric [Some 50000, Some 60000, Some 70000, Some 55000, Some 65000]),
            (''Department'', Categorical [Some ''IT'', Some ''HR'', Some ''Sales'', Some ''IT'',
                                          Some ''Marketing''])]\<rparr>
     = Inr
        \<lparr>index = [0, 1, 3, 4, 5],
         columns =
           [(''Name'', Categorical [Some ''John'', Some ''Jane'', Some ''Mike'', Some ''Sarah'',
                                    Some ''Jane'']),
            (''Age'', Numeric [Some 25, Some 30, Some 35, Some 28, Some 29]),
            (''Salary'', Numeric [Some 50000, Some 60000, Some 70000, Some 55000, Some 65000]),
            (''Department'', Categorical [Some ''IT'', Some ''HR'', Some ''Sales'', Some ''IT'',
                                          Some ''Marketing''])]\<rparr>
   \<and> clean_data False
        \<lparr>index = [0, 1, 3, 4, 5],
         columns =
           [(''Name'', Categorical [Some ''John'', Some ''Jane'', Some ''Mike'', Some ''Sarah'',
                                    Some ''Jane'']),
            (''Age'', Numeric [Some 25, Some 30, Some 35, Some 28, Some 29]),
            (''Salary'', Numeric [Some 50000, Some 60000, Some 70000, Some 55000, Some 65000]),
            (''Department'', Categorical [Some ''IT'', Some ''HR'', Some ''Sales'', Some ''IT'',
                                          Some ''Marketing''])]\<rparr>
     = Inr
        \<lparr>index = [0, 1, 3, 4, 5],
         columns =
           [(''Name'', Categorical [Some ''John'', Some ''Jane'', Some ''Mike'', Some ''Sarah'',
                                    Some ''Jane'']),
            (''Age'', Numeric [Some 25, Some 30, Some 35, Some 28, Some 29]),
            (''Salary'', Numeric [Some 50000, Some 60000, Some 70000, Some 55000, Some 65000]),
            (''Department'', Categorical [Some ''IT'', Some ''HR'', Some ''Sales'', Some ''IT'',
                                          Some ''Marketing''])]\<rparr>"
proof -
  define C where "C =
        \<lparr>index = [0, 1, 3, 4, 5],
         columns =
           [(''Name'', Categorical [Some ''John'', Some ''Jane'', Some ''Mike'', Some ''Sarah'',
                                    Some ''Jane'']),
            (''Age'', Numeric [Some 25, Some 30, Some 35, Some 28, Some (29::real)]),
            (''Salary'', Numeric [Some 50000, Some 60000, Some 70000, Some 55000, Some 65000]),
            (''Department'', Categorical [Some ''IT'', Some ''HR'', Some ''Sales'', Some ''IT'',
                                          Some ''Marketing''])]\<rparr>"
  have wf: "wf_frame test_cleaning_frame" by code_simp
  have ct: "clean_data True test_cleaning_frame = Inr C" unfolding C_def by code_simp
  have cf: "clean_data False test_cleaning_frame = Inr C" unfolding C_def by code_simp
  have n: "True \<notin> set (duplicated C)" unfolding C_def by code_simp
  have l: "list_all (\<lambda>n. normalize_name False (normalize_name False n) = normalize_name False n)
             (column_names test_cleaning_frame)"
    by code_simp
  then have i: "\<forall>n \<in> set (column_names test_cleaning_frame).
             normalize_name False (normalize_name False n) = normalize_name False n"
    by (simp only: list_all_iff)
  from C6_clean_twice [OF wf ct] n have rt: "clean_data True C = Inr C" by blast
  from C6_clean_twice [OF wf cf] i n have rf: "clean_data False C = Inr C" by blast
  show ?thesis
    using wf l n rt rf unfolding C_def by - (intro conjI, assumption+)
qed

end
